theory Spec2Isabelle
  imports Main
begin

section \<open>JavaScript values and string primitives\<close>

text \<open>
  The frontend is TypeScript running on a JavaScript engine. The values that reach the
  stores untyped (the result of \<^verbatim>\<open>JSON.parse\<close>, the \<^verbatim>\<open>Record<string, any>\<close> objects) are
  modelled by \<open>jsval\<close>. An object is the list of its own properties, in the order in
  which \<^verbatim>\<open>Object.keys\<close> lists them and with each key once; a property is read with
  \<open>map_of\<close>. Numbers are the integers; no operation of the modelled code computes
  with them. A \<open>string\<close> is the sequence of code units of the JavaScript string, over the
  8-bit alphabet of \<open>char\<close>.
\<close>

datatype jsval =
    Undefined
  | JNull
  | JBool bool
  | JNum int
  | JStr string
  | JArr "jsval list"
  | JObj "(string \<times> jsval) list"

text \<open>White space and line terminators, as \<^verbatim>\<open>String.prototype.trim\<close> and the regular
  expression class \<^verbatim>\<open>\s\<close> see them: TAB, LF, VT, FF, CR, SPACE, NBSP.\<close>

definition is_space :: "char \<Rightarrow> bool" where
  "is_space c \<longleftrightarrow> c \<in> set [CHR 0x09, CHR 0x0A, CHR 0x0B, CHR 0x0C, CHR 0x0D, CHR 0x20, CHR 0xA0]"

text \<open>The class \<^verbatim>\<open>\w\<close>: ASCII letters, digits and the underscore.\<close>

definition is_word :: "char \<Rightarrow> bool" where
  "is_word c \<longleftrightarrow>
     c \<in> set ''abcdefghijklmnopqrstuvwxyzABCDEFGHIJKLMNOPQRSTUVWXYZ0123456789_''"

text \<open>\<^verbatim>\<open>.\<close> of a regular expression matches every code unit but a line terminator.\<close>

definition is_line_terminator :: "char \<Rightarrow> bool" where
  "is_line_terminator c \<longleftrightarrow> c = CHR 0x0A \<or> c = CHR 0x0D"

text \<open>\<^verbatim>\<open>toLowerCase\<close> is modelled on the ASCII letters; every other code unit is kept.\<close>

definition toLowerChar :: "char \<Rightarrow> char" where
  "toLowerChar c =
     (case map_of (zip ''ABCDEFGHIJKLMNOPQRSTUVWXYZ'' ''abcdefghijklmnopqrstuvwxyz'') c of
        Some d \<Rightarrow> d | None \<Rightarrow> c)"

definition toLowerCase :: "string \<Rightarrow> string" where
  "toLowerCase s = map toLowerChar s"

text \<open>\<^verbatim>\<open>s.trim()\<close>\<close>

definition trim :: "string \<Rightarrow> string" where
  "trim s = rev (dropWhile is_space (rev (dropWhile is_space s)))"

text \<open>\<^verbatim>\<open>s.startsWith(p)\<close>, \<^verbatim>\<open>s.slice(n)\<close> and \<^verbatim>\<open>s.substring(0, n)\<close> for \<open>0 \<le> n\<close>.\<close>

definition startsWith :: "string \<Rightarrow> string \<Rightarrow> bool" where
  "startsWith s p \<longleftrightarrow> take (length p) s = p"

definition slice_from :: "nat \<Rightarrow> string \<Rightarrow> string" where
  "slice_from n s = drop n s"

definition substring0 :: "nat \<Rightarrow> string \<Rightarrow> string" where
  "substring0 n s = take n s"

text \<open>\<^verbatim>\<open>s.split('\n')\<close>: the pieces between line feeds; never the empty list.\<close>

fun split_nl :: "string \<Rightarrow> string list" where
  "split_nl [] = [[]]"
| "split_nl (c # cs) =
     (if c = CHR 0x0A then [] # split_nl cs
      else (case split_nl cs of [] \<Rightarrow> [[c]] | l # ls \<Rightarrow> (c # l) # ls))"

text \<open>\<^verbatim>\<open>s.replace(/\s+/g, '_')\<close>: every maximal run of white space becomes one underscore.\<close>

fun replace_run :: "bool \<Rightarrow> string \<Rightarrow> string" where
  "replace_run in_run [] = []"
| "replace_run in_run (c # cs) =
     (if is_space c then (if in_run then replace_run True cs else CHR ''_'' # replace_run True cs)
      else c # replace_run False cs)"

definition replace_spaces :: "string \<Rightarrow> string" where
  "replace_spaces s = replace_run False s"

text \<open>Decimal numerals, for \<^verbatim>\<open>ToString\<close> of a number and for the index keys of arrays.\<close>

fun digits :: "nat \<Rightarrow> string" where
  "digits n = (if n < 10 then [''0123456789'' ! n] else digits (n div 10) @ [''0123456789'' ! (n mod 10)])"

definition int_to_string :: "int \<Rightarrow> string" where
  "int_to_string i = (if i < 0 then CHR ''-'' # digits (nat (- i)) else digits (nat i))"

declare digits.simps [simp del]

text \<open>Truthiness, as \<^verbatim>\<open>if (v)\<close> and \<^verbatim>\<open>v || d\<close> test it.\<close>

fun truthy :: "jsval \<Rightarrow> bool" where
  "truthy Undefined = False"
| "truthy JNull = False"
| "truthy (JBool b) = b"
| "truthy (JNum n) = (n \<noteq> 0)"
| "truthy (JStr s) = (s \<noteq> [])"
| "truthy (JArr xs) = True"
| "truthy (JObj kvs) = True"

text \<open>\<^verbatim>\<open>ToString\<close>, the conversion that \<^verbatim>\<open>+=\<close> on a string applies to its right operand.
  An array prints its elements separated by commas, with \<^verbatim>\<open>null\<close> and \<^verbatim>\<open>undefined\<close>
  elements empty.\<close>

fun js_to_string :: "jsval \<Rightarrow> string"
  and js_join :: "jsval list \<Rightarrow> string"
  and js_element :: "jsval \<Rightarrow> string" where
  "js_to_string Undefined = ''undefined''"
| "js_to_string JNull = ''null''"
| "js_to_string (JBool b) = (if b then ''true'' else ''false'')"
| "js_to_string (JNum n) = int_to_string n"
| "js_to_string (JStr s) = s"
| "js_to_string (JArr xs) = js_join xs"
| "js_to_string (JObj kvs) = ''[object Object]''"
| "js_join [] = []"
| "js_join [x] = js_element x"
| "js_join (x # y # ys) = js_element x @ '','' @ js_join (y # ys)"
| "js_element Undefined = []"
| "js_element JNull = []"
| "js_element (JBool b) = js_to_string (JBool b)"
| "js_element (JNum n) = js_to_string (JNum n)"
| "js_element (JStr s) = js_to_string (JStr s)"
| "js_element (JArr xs) = js_to_string (JArr xs)"
| "js_element (JObj kvs) = js_to_string (JObj kvs)"

text \<open>\<^verbatim>\<open>v.k\<close> for a value that is neither \<^verbatim>\<open>null\<close> nor \<^verbatim>\<open>undefined\<close> and a property name
  \<open>k\<close> that no primitive wrapper or array defines (the code reads \<^verbatim>\<open>type\<close>,
  \<^verbatim>\<open>description\<close>, \<^verbatim>\<open>updates\<close>, \<^verbatim>\<open>content\<close> and \<^verbatim>\<open>message\<close>).\<close>

fun get_prop :: "jsval \<Rightarrow> string \<Rightarrow> jsval" where
  "get_prop (JObj kvs) k = (case map_of kvs k of Some v \<Rightarrow> v | None \<Rightarrow> Undefined)"
| "get_prop v k = Undefined"

text \<open>The own enumerable properties that \<^verbatim>\<open>Object.keys\<close> lists and \<^verbatim>\<open>Object.assign\<close>
  copies: the entries of an object, the indexed elements of an array, the indexed
  characters of a string, nothing for a number or a boolean. Both functions are only
  called on values that passed a truthiness test.\<close>

fun own_props :: "jsval \<Rightarrow> (string \<times> jsval) list" where
  "own_props (JObj kvs) = kvs"
| "own_props (JArr xs) = zip (map digits [0..<length xs]) xs"
| "own_props (JStr s) = zip (map digits [0..<length s]) (map (\<lambda>c. JStr [c]) s)"
| "own_props v = []"

text \<open>\<^verbatim>\<open>v[key]\<close> for a key that \<^verbatim>\<open>Object.keys(v)\<close> lists.\<close>

definition get_own :: "jsval \<Rightarrow> string \<Rightarrow> jsval" where
  "get_own v key = (case map_of (own_props v) key of Some x \<Rightarrow> x | None \<Rightarrow> Undefined)"

definition Object_keys :: "jsval \<Rightarrow> string list" where
  "Object_keys v = remdups (map fst (own_props v))"

text \<open>
  A mutable object of the stores (the preferences, the memory updates): its own
  properties and its prototype. The prototype is \<^verbatim>\<open>Object.prototype\<close> unless an
  assignment to \<^verbatim>\<open>__proto__\<close> has replaced it by \<^verbatim>\<open>null\<close> or by an object or array that
  came out of \<^verbatim>\<open>JSON.parse\<close> (whose own prototype is \<^verbatim>\<open>Object.prototype\<close> or
  \<^verbatim>\<open>Array.prototype\<close>).
\<close>

datatype prototype = ObjectPrototype | NullPrototype | ValuePrototype jsval

record js_object =
  props :: "string \<rightharpoonup> jsval"
  proto :: prototype

text \<open>The property names of \<^verbatim>\<open>Object.prototype\<close> and of \<^verbatim>\<open>Array.prototype\<close> in the
  engines of current browsers (ECMAScript 2023 with Annex B). All of them are writable
  data properties but \<^verbatim>\<open>__proto__\<close>, which is an accessor.\<close>

definition Object_prototype_names :: "string list" where
  "Object_prototype_names =
     [''constructor'', ''__defineGetter__'', ''__defineSetter__'', ''hasOwnProperty'',
      ''__lookupGetter__'', ''__lookupSetter__'', ''isPrototypeOf'', ''propertyIsEnumerable'',
      ''toString'', ''valueOf'', ''__proto__'', ''toLocaleString'']"

definition Array_prototype_names :: "string list" where
  "Array_prototype_names =
     [''length'', ''constructor'', ''at'', ''concat'', ''copyWithin'', ''fill'', ''find'',
      ''findIndex'', ''findLast'', ''findLastIndex'', ''lastIndexOf'', ''pop'', ''push'',
      ''reverse'', ''shift'', ''unshift'', ''slice'', ''sort'', ''splice'', ''includes'',
      ''indexOf'', ''join'', ''keys'', ''entries'', ''values'', ''forEach'', ''filter'', ''flat'',
      ''flatMap'', ''map'', ''every'', ''some'', ''reduce'', ''reduceRight'', ''toLocaleString'',
      ''toString'', ''toReversed'', ''toSorted'', ''toSpliced'', ''with'']"

text \<open>The names that an object inherits through its prototype chain.\<close>

fun inherited :: "prototype \<Rightarrow> string \<Rightarrow> bool" where
  "inherited ObjectPrototype k \<longleftrightarrow> k \<in> set Object_prototype_names"
| "inherited NullPrototype k \<longleftrightarrow> False"
| "inherited (ValuePrototype (JArr xs)) k \<longleftrightarrow>
     k \<in> fst ` set (own_props (JArr xs)) \<or> k = ''length'' \<or> k \<in> set Array_prototype_names \<or>
     k \<in> set Object_prototype_names"
| "inherited (ValuePrototype v) k \<longleftrightarrow>
     k \<in> fst ` set (own_props v) \<or> k \<in> set Object_prototype_names"

text \<open>\<^verbatim>\<open>key in obj\<close>: an own or an inherited property.\<close>

definition js_has :: "js_object \<Rightarrow> string \<Rightarrow> bool" where
  "js_has obj key \<longleftrightarrow>
     (case props obj key of Some v \<Rightarrow> True | None \<Rightarrow> inherited (proto obj) key)"

text \<open>Whether the search for \<^verbatim>\<open>__proto__\<close> along the prototype chain ends at the accessor of
  \<^verbatim>\<open>Object.prototype\<close>: not when the chain is empty, and not when a parsed object on
  the chain has a data property of that name (\<^verbatim>\<open>JSON.parse\<close> creates one for the key
  \<^verbatim>\<open>__proto__\<close>).\<close>

fun reaches_setter :: "prototype \<Rightarrow> bool" where
  "reaches_setter ObjectPrototype \<longleftrightarrow> True"
| "reaches_setter NullPrototype \<longleftrightarrow> False"
| "reaches_setter (ValuePrototype v) \<longleftrightarrow> ''__proto__'' \<notin> fst ` set (own_props v)"

text \<open>\<^verbatim>\<open>obj[key] = v\<close>. An own property is overwritten. Otherwise the assignment creates
  an own property, unless it finds the accessor \<^verbatim>\<open>__proto__\<close>: its setter replaces the
  prototype when \<open>v\<close> is an object, an array or \<^verbatim>\<open>null\<close>, and does nothing for any
  other value.\<close>

definition js_set :: "string \<Rightarrow> jsval \<Rightarrow> js_object \<Rightarrow> js_object" where
  "js_set key v obj =
     (if props obj key = None \<and> key = ''__proto__'' \<and> reaches_setter (proto obj) then
        (case v of
           JNull \<Rightarrow> obj\<lparr>proto := NullPrototype\<rparr>
         | JObj kvs \<Rightarrow> obj\<lparr>proto := ValuePrototype v\<rparr>
         | JArr xs \<Rightarrow> obj\<lparr>proto := ValuePrototype v\<rparr>
         | _ \<Rightarrow> obj)
      else obj\<lparr>props := (props obj)(key \<mapsto> v)\<rparr>)"

text \<open>\<^verbatim>\<open>Object.assign(target, source)\<close>: every own enumerable property of the source is
  assigned to the target, in the order of the keys.\<close>

definition Object_assign :: "js_object \<Rightarrow> jsval \<Rightarrow> js_object" where
  "Object_assign target source =
     foldl (\<lambda>obj key. js_set key (get_own source key) obj) target (Object_keys source)"

text \<open>\<^verbatim>\<open>xs.findIndex(p)\<close>, with \<open>None\<close> for \<^verbatim>\<open>-1\<close>.\<close>

fun findIndex :: "('a \<Rightarrow> bool) \<Rightarrow> 'a list \<Rightarrow> nat option" where
  "findIndex p [] = None"
| "findIndex p (x # xs) = (if p x then Some 0 else map_option Suc (findIndex p xs))"

text \<open>\<^verbatim>\<open>xs.find(p)\<close> followed by an assignment to the fields of the object found: the
  first element that satisfies \<open>p\<close> is changed where it stands.\<close>

fun update_first :: "('a \<Rightarrow> bool) \<Rightarrow> ('a \<Rightarrow> 'a) \<Rightarrow> 'a list \<Rightarrow> 'a list" where
  "update_first p f [] = []"
| "update_first p f (x # xs) = (if p x then f x # xs else x # update_first p f xs)"

section \<open>Regular expressions of the session titles\<close>

text \<open>A literal of a case-insensitive expression at the start of the text: the rest
  after it. The literals of the source are lower-case ASCII.\<close>

definition ci_prefix :: "string \<Rightarrow> string \<Rightarrow> string option" where
  "ci_prefix p s =
     (if length p \<le> length s \<and> toLowerCase (take (length p) s) = p
      then Some (drop (length p) s) else None)"

text \<open>\<^verbatim>\<open>\w+(?:\s+\w+)*\<close> from a word character on: words separated by white space, as
  far as they go; white space that no word follows is given back.\<close>

fun words_run :: "string \<Rightarrow> string \<Rightarrow> string" where
  "words_run pending [] = []"
| "words_run pending (c # cs) =
     (if is_word c then pending @ c # words_run [] cs
      else if is_space c then words_run (pending @ [c]) cs
      else [])"

text \<open>\<^verbatim>\<open>\s+(\w+(?:\s+\w+)*)\<close> at the start of the text: the captured group.\<close>

definition match_words :: "string \<Rightarrow> string option" where
  "match_words s =
     (case s of
        [] \<Rightarrow> None
      | c # cs \<Rightarrow>
          if is_space c then
            (case dropWhile is_space cs of
               [] \<Rightarrow> None
             | d # ds \<Rightarrow> if is_word d then Some (words_run [] (d # ds)) else None)
          else None)"

definition lit_then_words :: "string \<Rightarrow> string \<Rightarrow> string option" where
  "lit_then_words p s = (case ci_prefix p s of None \<Rightarrow> None | Some r \<Rightarrow> match_words r)"

text \<open>\<^verbatim>\<open>.*to\s+(\w+(?:\s+\w+)*)\<close>: the greedy \<^verbatim>\<open>.*\<close> first takes one more code unit of the
  line and gives it back when the rest does not match.\<close>

fun dotstar_to :: "string \<Rightarrow> string option" where
  "dotstar_to [] = lit_then_words ''to'' []"
| "dotstar_to (c # cs) =
     (case (if is_line_terminator c then None else dotstar_to cs) of
        Some g \<Rightarrow> Some g
      | None \<Rightarrow> lit_then_words ''to'' (c # cs))"

text \<open>The alternatives of
  \<^verbatim>\<open>/(?:to|visit|trip.*to|go.*to)\s+(\w+(?:\s+\w+)*)/i\<close> at one position, in their order.\<close>

definition travel_at :: "string \<Rightarrow> string option" where
  "travel_at s =
     (case lit_then_words ''to'' s of Some g \<Rightarrow> Some g | None \<Rightarrow>
      (case lit_then_words ''visit'' s of Some g \<Rightarrow> Some g | None \<Rightarrow>
      (case (case ci_prefix ''trip'' s of None \<Rightarrow> None | Some r \<Rightarrow> dotstar_to r) of
         Some g \<Rightarrow> Some g | None \<Rightarrow>
      (case ci_prefix ''go'' s of None \<Rightarrow> None | Some r \<Rightarrow> dotstar_to r))))"

text \<open>\<^verbatim>\<open>title.match(...)\<close>: the leftmost position that matches; the result is group 1.\<close>

fun travel_match :: "string \<Rightarrow> string option" where
  "travel_match [] = travel_at []"
| "travel_match (c # cs) =
     (case travel_at (c # cs) of Some g \<Rightarrow> Some g | None \<Rightarrow> travel_match cs)"

section \<open>Data model\<close>

text \<open>
  Identifiers (\<^verbatim>\<open>uuidv4()\<close> strings, the session ids of the backend) are only compared
  and used as keys; they are modelled as natural numbers. \<^verbatim>\<open>uuidv4()\<close> draws the next
  identifier from \<open>uuid_next\<close>. Timestamps (\<^verbatim>\<open>timestamp\<close>, \<^verbatim>\<open>lastActivity\<close>) read the wall
  clock and are left out, as is the console.
\<close>

type_synonym ident = nat

datatype role = User | Assistant

text \<open>\<^verbatim>\<open>interface Message\<close>. \<open>isError\<close> is \<open>False\<close> where the source leaves the optional
  field out. The content is a \<open>jsval\<close>, because the content of an error message comes
  unchecked from the event.\<close>

record message =
  msg_id :: ident
  role :: role
  content :: jsval
  isError :: bool

text \<open>\<^verbatim>\<open>interface AgentAction\<close>\<close>

record agent_action =
  action_type :: string
  description :: string
  action_data :: jsval

text \<open>An entry of one of the three caches of the chat store. \<^verbatim>\<open>saveCurrentSession\<close>
  stores the array (or object) that the store holds, not a copy: such an entry is
  \<open>Live\<close>, and it changes with every later push or assignment in place. \<open>Stored v\<close> is
  an entry that holds a value of its own.\<close>

datatype 'a cached = Live | Stored 'a

text \<open>The state of \<^verbatim>\<open>useChatStore\<close> that the streaming client reads and writes
  (\<^verbatim>\<open>isLoadingHistory\<close> belongs to the loading of a history and is left out). \<open>error\<close> is
  a \<open>jsval\<close>, because \<^verbatim>\<open>setError\<close> is called with the unchecked \<^verbatim>\<open>message\<close> of an event.
  The three caches are the \<^verbatim>\<open>useLocalStorage\<close> objects, keyed by session id. None of
  the actions modelled here replaces the arrays or the object of the store; they are
  changed in place.\<close>

record chat_store =
  sessionId :: ident
  messages :: "message list"
  agentActions :: "agent_action list"
  memoryUpdates :: js_object
  isTyping :: bool
  error :: jsval
  sessionMessages :: "ident \<rightharpoonup> message list cached"
  sessionActions :: "ident \<rightharpoonup> agent_action list cached"
  sessionMemory :: "ident \<rightharpoonup> js_object cached"

text \<open>\<^verbatim>\<open>interface ChatSession\<close>; \<open>lastMessage\<close> is \<open>None\<close> for \<^verbatim>\<open>null\<close>. The optional
  \<^verbatim>\<open>destination\<close> and \<^verbatim>\<open>budget\<close> are only written when the catalog is fetched from the
  backend and are left out.\<close>

record ChatSession =
  sess_id :: ident
  title :: string
  lastMessage :: "string option"
  messageCount :: nat

text \<open>\<^verbatim>\<open>Partial<ChatSession>\<close> as the callers of \<^verbatim>\<open>updateSession\<close> build it: \<open>None\<close> is a
  key that the object literal does not have.\<close>

record session_updates =
  upd_lastMessage :: "string option"
  upd_messageCount :: "nat option"

text \<open>The state of \<^verbatim>\<open>useSessionsStore\<close>: the catalog in the order of the array, and the
  id of the current session (\<^verbatim>\<open>isLoading\<close> and \<^verbatim>\<open>error\<close> belong to the fetch of the
  catalog and are left out).\<close>

record sessions_store =
  sessions :: "ChatSession list"
  currentSessionId :: ident

text \<open>Requests sent to the backend, in the order they are issued.\<close>

datatype request = PostMessageStream ident string | DeleteSessionRequest ident

text \<open>The three Pinia stores, the identifier supply and the request log.\<close>

record app =
  chat :: chat_store
  preferences :: js_object
  sess :: sessions_store
  uuid_next :: ident
  requests :: "request list"

section \<open>Chat store\<close>

definition chat_messageCount :: "chat_store \<Rightarrow> nat" where
  "chat_messageCount c = length (messages c)"

definition setTyping :: "bool \<Rightarrow> chat_store \<Rightarrow> chat_store" where
  "setTyping typing c = c\<lparr>isTyping := typing\<rparr>"

definition setError :: "jsval \<Rightarrow> chat_store \<Rightarrow> chat_store" where
  "setError errorMessage c = c\<lparr>error := errorMessage\<rparr>"

definition addMessage :: "message \<Rightarrow> chat_store \<Rightarrow> chat_store" where
  "addMessage m c = c\<lparr>messages := messages c @ [m]\<rparr>"

definition addAgentAction :: "agent_action \<Rightarrow> chat_store \<Rightarrow> chat_store" where
  "addAgentAction a c = c\<lparr>agentActions := agentActions c @ [a]\<rparr>"

definition updateMemory :: "jsval \<Rightarrow> chat_store \<Rightarrow> chat_store" where
  "updateMemory updates c = c\<lparr>memoryUpdates := Object_assign (memoryUpdates c) updates\<rparr>"

text \<open>\<^verbatim>\<open>saveCurrentSession\<close>: the three entries of the current session become the array
  of messages, the array of actions and the memory object of the store themselves.\<close>

definition saveCurrentSession :: "chat_store \<Rightarrow> chat_store" where
  "saveCurrentSession c =
     (let current = sessionId c in
      c\<lparr>sessionMessages := (sessionMessages c)(current \<mapsto> Live),
        sessionActions := (sessionActions c)(current \<mapsto> Live),
        sessionMemory := (sessionMemory c)(current \<mapsto> Live)\<rparr>)"

text \<open>What the caches hold for a session id: a live entry reads as what the store holds
  now.\<close>

definition cached_messages :: "chat_store \<Rightarrow> ident \<Rightarrow> message list option" where
  "cached_messages c sid =
     (case sessionMessages c sid of
        None \<Rightarrow> None | Some Live \<Rightarrow> Some (messages c) | Some (Stored v) \<Rightarrow> Some v)"

definition cached_actions :: "chat_store \<Rightarrow> ident \<Rightarrow> agent_action list option" where
  "cached_actions c sid =
     (case sessionActions c sid of
        None \<Rightarrow> None | Some Live \<Rightarrow> Some (agentActions c) | Some (Stored v) \<Rightarrow> Some v)"

definition cached_memory :: "chat_store \<Rightarrow> ident \<Rightarrow> js_object option" where
  "cached_memory c sid =
     (case sessionMemory c sid of
        None \<Rightarrow> None | Some Live \<Rightarrow> Some (memoryUpdates c) | Some (Stored v) \<Rightarrow> Some v)"

section \<open>Preferences store\<close>

text \<open>The \<^verbatim>\<open>preferences\<close> object. The initial object has all eight keys as own
  properties, five of them \<^verbatim>\<open>undefined\<close>, and \<^verbatim>\<open>Object.prototype\<close> as prototype.\<close>

definition initial_preferences :: js_object where
  "initial_preferences =
     \<lparr>props =
        [''destination'' \<mapsto> Undefined, ''origin'' \<mapsto> Undefined, ''budget'' \<mapsto> Undefined,
         ''dates'' \<mapsto> Undefined, ''people_count'' \<mapsto> JNum 1, ''dietary_preferences'' \<mapsto> JArr [],
         ''activity_preferences'' \<mapsto> JArr [], ''accommodation_type'' \<mapsto> Undefined],
      proto = ObjectPrototype\<rparr>"

text \<open>\<^verbatim>\<open>updatePreference\<close>: \<^verbatim>\<open>preferences.value[key] = value\<close>\<close>

definition updatePreference :: "string \<Rightarrow> jsval \<Rightarrow> js_object \<Rightarrow> js_object" where
  "updatePreference key v p = js_set key v p"

text \<open>\<^verbatim>\<open>setFromMemoryUpdates\<close>: for each key of the update in turn, the assignment under
  the guard \<^verbatim>\<open>key in preferences.value\<close>.\<close>

definition setFromMemoryUpdates :: "jsval \<Rightarrow> js_object \<Rightarrow> js_object" where
  "setFromMemoryUpdates updates p =
     foldl (\<lambda>q key. if js_has q key then updatePreference key (get_own updates key) q else q)
       p (Object_keys updates)"

section \<open>Sessions store\<close>

text \<open>\<^verbatim>\<open>createSession(title)\<close>: a new entry at the front, made current; the new id is
  returned. It draws the id, so it works on the whole state.\<close>

definition createSession :: "string \<Rightarrow> app \<Rightarrow> ident \<times> app" where
  "createSession t s =
     (let newSessionId = uuid_next s;
          newSession = \<lparr>sess_id = newSessionId, title = t, lastMessage = None, messageCount = 0\<rparr>
      in (newSessionId,
          s\<lparr>uuid_next := Suc (uuid_next s),
            sess := (sess s)\<lparr>sessions := newSession # sessions (sess s),
                             currentSessionId := newSessionId\<rparr>\<rparr>))"

text \<open>\<^verbatim>\<open>Object.assign(session, updates, { lastActivity: new Date() })\<close>\<close>

definition assign_updates :: "session_updates \<Rightarrow> ChatSession \<Rightarrow> ChatSession" where
  "assign_updates u x =
     x\<lparr>lastMessage := (case upd_lastMessage u of None \<Rightarrow> lastMessage x | Some m \<Rightarrow> Some m),
       messageCount := (case upd_messageCount u of None \<Rightarrow> messageCount x | Some n \<Rightarrow> n)\<rparr>"

definition updateSession :: "ident \<Rightarrow> session_updates \<Rightarrow> sessions_store \<Rightarrow> sessions_store" where
  "updateSession sid u st =
     st\<lparr>sessions := update_first (\<lambda>x. sess_id x = sid) (assign_updates u) (sessions st)\<rparr>"

text \<open>The title that \<^verbatim>\<open>updateSessionFromMessage\<close> derives from a message.\<close>

definition derive_title :: "string \<Rightarrow> string" where
  "derive_title message =
     (let t = trim message in
      case travel_match t of
        Some place \<Rightarrow> ''Trip to '' @ place
      | None \<Rightarrow> (if length t > 30 then substring0 30 t @ ''...'' else t))"

text \<open>What \<^verbatim>\<open>updateSessionFromMessage\<close> does to the session it has found.\<close>

definition from_message :: "string \<Rightarrow> ChatSession \<Rightarrow> ChatSession" where
  "from_message message x =
     (let x1 = x\<lparr>lastMessage := Some message, messageCount := messageCount x + 1\<rparr>
      in if title x1 = ''New Chat'' \<and> trim message \<noteq> [] then x1\<lparr>title := derive_title message\<rparr>
         else x1)"

definition updateSessionFromMessage :: "ident \<Rightarrow> string \<Rightarrow> sessions_store \<Rightarrow> sessions_store" where
  "updateSessionFromMessage sid message st =
     st\<lparr>sessions := update_first (\<lambda>x. sess_id x = sid) (from_message message) (sessions st)\<rparr>"

text \<open>The title of the session that \<^verbatim>\<open>sessions.value.find(s => s.id === sessionId)\<close>
  returns, \<open>None\<close> when there is no such session.\<close>

definition title_of :: "ident \<Rightarrow> sessions_store \<Rightarrow> string option" where
  "title_of sid st = map_option title (find (\<lambda>x. sess_id x = sid) (sessions st))"

text \<open>\<^verbatim>\<open>deleteSession\<close> of \<^verbatim>\<open>stores/sessions.ts\<close>. The answer of the backend to the
  \<^verbatim>\<open>DELETE\<close> request is an input: success, a status that is not ok, or a rejected
  \<^verbatim>\<open>fetch\<close> (caught and logged).\<close>

datatype remote_outcome = RemoteOk | RemoteNotOk | RemoteRejects

definition deleteSession :: "remote_outcome \<Rightarrow> ident \<Rightarrow> app \<Rightarrow> bool \<times> app" where
  "deleteSession remote sid s =
     (if length (sessions (sess s)) \<le> 1 then (False, s)
      else
        let s1 = s\<lparr>requests := requests s @ [DeleteSessionRequest sid]\<rparr>;
            rest = filter (\<lambda>x. sess_id x \<noteq> sid) (sessions (sess s1));
            s2 = s1\<lparr>sess := (sess s1)\<lparr>sessions := rest\<rparr>\<rparr>;
            s3 = (if currentSessionId (sess s2) = sid then
                    (case sessions (sess s2) of
                       x # xs \<Rightarrow> s2\<lparr>sess := (sess s2)\<lparr>currentSessionId := sess_id x\<rparr>\<rparr>
                     | [] \<Rightarrow> snd (createSession ''New Chat'' s2))
                  else s2)
        in (True, s3))"

section \<open>Streaming client\<close>

text \<open>The exceptions that the code can meet, and whether a statement of a loop body went
  on to the next line or left \<^verbatim>\<open>sendMessage\<close> with \<^verbatim>\<open>return\<close>.\<close>

datatype exn = SyntaxError | TypeError | HttpError nat | NoReader | FetchRejected | ReadRejected

datatype signal = Continue | Return

text \<open>The variables of \<^verbatim>\<open>sendMessage\<close> that live across the lines of one stream.
  \<open>aliased\<close> is the index of the slot of \<^verbatim>\<open>chatStore.messages\<close> that still holds the very
  object \<^verbatim>\<open>currentMessage\<close> refers to: \<^verbatim>\<open>addMessage\<close> pushes the object itself, so an
  assignment to \<^verbatim>\<open>currentMessage.content\<close> shows in that slot until the slot is
  overwritten with a copy.\<close>

record stream_vars =
  currentMessage :: "message option"
  aliased :: "nat option"
  messageContent :: string

definition initial_vars :: stream_vars where
  "initial_vars = \<lparr>currentMessage = None, aliased = None, messageContent = []\<rparr>"

text \<open>The \<^verbatim>\<open>token\<close> case.\<close>

definition on_token :: "jsval \<Rightarrow> stream_vars \<Rightarrow> app \<Rightarrow> stream_vars \<times> app" where
  "on_token data vars s =
     (case currentMessage vars of
        None \<Rightarrow> (vars, s)
      | Some m \<Rightarrow>
          let text = messageContent vars @ js_to_string (get_prop data ''content'');
              m' = m\<lparr>content := JStr text\<rparr>;
              ms1 = (case aliased vars of None \<Rightarrow> messages (chat s)
                     | Some i \<Rightarrow> (messages (chat s))[i := m']);
              vars1 = vars\<lparr>currentMessage := Some m', messageContent := text\<rparr>
          in (case findIndex (\<lambda>x. msg_id x = msg_id m') ms1 of
                None \<Rightarrow> (vars1, s\<lparr>chat := (chat s)\<lparr>messages := ms1\<rparr>\<rparr>)
              | Some messageIndex \<Rightarrow>
                  (vars1\<lparr>aliased := (if aliased vars = Some messageIndex then None else aliased vars)\<rparr>,
                   s\<lparr>chat := (chat s)\<lparr>messages := ms1[messageIndex := m']\<rparr>\<rparr>)))"

text \<open>The \<^verbatim>\<open>lastMessage\<close> that the \<^verbatim>\<open>complete\<close> case computes:
  \<^verbatim>\<open>messages[messages.length - 1]?.content.substring(0, 50) + '...' || ''\<close>. The sum binds
  tighter than \<^verbatim>\<open>||\<close> and is never empty. Without a last message the optional chain
  gives \<^verbatim>\<open>undefined\<close>; a content that is not a string has no \<^verbatim>\<open>substring\<close>.\<close>

definition final_preview :: "message list \<Rightarrow> exn + string" where
  "final_preview ms =
     (if ms = [] then Inr (''undefined'' @ ''...'')
      else (case content (last ms) of
              JStr c \<Rightarrow> Inr (substring0 50 c @ ''...'')
            | _ \<Rightarrow> Inl TypeError))"

text \<open>The \<^verbatim>\<open>switch (data.type)\<close> with what precedes it in the \<^verbatim>\<open>try\<close> block after
  \<^verbatim>\<open>JSON.parse\<close>. The result is the exception thrown or the way the statement ended,
  with the variables and the stores as they are at that point.\<close>

definition switch_event ::
  "ident \<Rightarrow> jsval \<Rightarrow> stream_vars \<Rightarrow> app \<Rightarrow> (exn + signal) \<times> stream_vars \<times> app" where
  "switch_event sid data vars s =
     (if data = JNull \<or> data = Undefined then (Inl TypeError, vars, s)
      else
        let t = get_prop data ''type'' in
        if t = JStr ''start'' then
          (Inr Continue, vars, s\<lparr>chat := setTyping True (chat s)\<rparr>)
        else if t = JStr ''action'' then
          (case get_prop data ''description'' of
             JStr d \<Rightarrow>
               (Inr Continue, vars,
                s\<lparr>chat := addAgentAction
                     \<lparr>action_type = replace_spaces (toLowerCase d), description = d,
                      action_data = JObj []\<rparr> (chat s)\<rparr>)
           | _ \<Rightarrow> (Inl TypeError, vars, s))
        else if t = JStr ''memory'' then
          (let updates = get_prop data ''updates'' in
           if truthy updates then
             (Inr Continue, vars,
              s\<lparr>chat := updateMemory updates (chat s),
                preferences := setFromMemoryUpdates updates (preferences s)\<rparr>)
           else (Inr Continue, vars, s))
        else if t = JStr ''response_start'' then
          (let m = \<lparr>msg_id = uuid_next s, role = Assistant, content = JStr [], isError = False\<rparr>
           in (Inr Continue,
               \<lparr>currentMessage = Some m, aliased = Some (length (messages (chat s))),
                messageContent = []\<rparr>,
               s\<lparr>uuid_next := Suc (uuid_next s),
                 chat := setTyping False (addMessage m (chat s))\<rparr>))
        else if t = JStr ''token'' then
          (case on_token data vars s of (vars', s') \<Rightarrow> (Inr Continue, vars', s'))
        else if t = JStr ''complete'' then
          (let s1 = s\<lparr>chat := saveCurrentSession (setTyping False (chat s))\<rparr> in
           case final_preview (messages (chat s1)) of
             Inl e \<Rightarrow> (Inl e, vars, s1)
           | Inr preview \<Rightarrow>
               (Inr Return, vars,
                s1\<lparr>sess := updateSession sid
                     \<lparr>upd_lastMessage = Some preview,
                      upd_messageCount = Some (chat_messageCount (chat s1))\<rparr> (sess s1)\<rparr>))
        else if t = JStr ''error'' then
          (let msg = get_prop data ''message'';
               errorMessage =
                 \<lparr>msg_id = uuid_next s, role = Assistant,
                  content = (if truthy msg then msg
                             else JStr ''Sorry, I encountered an error. Please try again.''),
                  isError = True\<rparr>
           in (Inr Return, vars,
               s\<lparr>uuid_next := Suc (uuid_next s),
                 chat := addMessage errorMessage (setError msg (setTyping False (chat s)))\<rparr>))
        else (Inr Continue, vars, s))"

text \<open>The body of the \<^verbatim>\<open>try\<close> of one line that starts with \<^verbatim>\<open>data: \<close>. \<^verbatim>\<open>JSON.parse\<close> is
  the engine's; it is the parameter \<open>parse\<close>, \<open>None\<close> where it throws.\<close>

definition try_line ::
  "(string \<Rightarrow> jsval option) \<Rightarrow> ident \<Rightarrow> string \<Rightarrow> stream_vars \<Rightarrow> app
     \<Rightarrow> (exn + signal) \<times> stream_vars \<times> app" where
  "try_line parse sid line vars s =
     (let eventData = slice_from 6 line in
      if trim eventData = [] then (Inr Continue, vars, s)
      else (case parse eventData of
              None \<Rightarrow> (Inl SyntaxError, vars, s)
            | Some data \<Rightarrow> switch_event sid data vars s))"

text \<open>One iteration of \<^verbatim>\<open>for (const line of lines)\<close>: the \<^verbatim>\<open>catch\<close> logs and goes on.\<close>

definition handle_line ::
  "(string \<Rightarrow> jsval option) \<Rightarrow> ident \<Rightarrow> string \<Rightarrow> stream_vars \<Rightarrow> app
     \<Rightarrow> signal \<times> stream_vars \<times> app" where
  "handle_line parse sid line vars s =
     (if startsWith line ''data: '' then
        (case try_line parse sid line vars s of
           (Inl parseError, vars', s') \<Rightarrow> (Continue, vars', s')
         | (Inr sig, vars', s') \<Rightarrow> (sig, vars', s'))
      else (Continue, vars, s))"

text \<open>The event that a line carries: the parsed payload of a line that starts with
  \<^verbatim>\<open>data: \<close> and has a payload that is not blank; \<open>None\<close> for every line that the loop
  skips or whose payload \<^verbatim>\<open>JSON.parse\<close> rejects.\<close>

definition event_of :: "(string \<Rightarrow> jsval option) \<Rightarrow> string \<Rightarrow> jsval option" where
  "event_of parse line =
     (if startsWith line ''data: '' \<and> trim (slice_from 6 line) \<noteq> []
      then parse (slice_from 6 line) else None)"

text \<open>A line that carries an event of the given \<^verbatim>\<open>type\<close>, and a line that carries a
  \<^verbatim>\<open>token\<close> event with the given string as \<^verbatim>\<open>content\<close>.\<close>

definition event_line :: "(string \<Rightarrow> jsval option) \<Rightarrow> string \<Rightarrow> string \<Rightarrow> bool" where
  "event_line parse line kind \<longleftrightarrow>
     (case event_of parse line of
        None \<Rightarrow> False
      | Some data \<Rightarrow> get_prop data ''type'' = JStr kind)"

definition token_line :: "(string \<Rightarrow> jsval option) \<Rightarrow> string \<Rightarrow> string \<Rightarrow> bool" where
  "token_line parse line t \<longleftrightarrow>
     (case event_of parse line of
        None \<Rightarrow> False
      | Some data \<Rightarrow> get_prop data ''type'' = JStr ''token'' \<and> get_prop data ''content'' = JStr t)"

text \<open>A line that carries an event of a \<^verbatim>\<open>type\<close> other than \<^verbatim>\<open>response_start\<close>,
  \<^verbatim>\<open>token\<close>, \<^verbatim>\<open>complete\<close> and \<^verbatim>\<open>error\<close>: a \<^verbatim>\<open>start\<close>, \<^verbatim>\<open>action\<close> or \<^verbatim>\<open>memory\<close> event, or
  one that no \<^verbatim>\<open>case\<close> of the \<^verbatim>\<open>switch\<close> matches.\<close>

definition prelude_line :: "(string \<Rightarrow> jsval option) \<Rightarrow> string \<Rightarrow> bool" where
  "prelude_line parse line \<longleftrightarrow>
     (case event_of parse line of
        None \<Rightarrow> False
      | Some data \<Rightarrow>
          get_prop data ''type'' \<notin>
            {JStr ''response_start'', JStr ''token'', JStr ''complete'', JStr ''error''})"

text \<open>\<^verbatim>\<open>for (const line of lines)\<close>, left early by the \<^verbatim>\<open>return\<close> of a case.\<close>

fun process_lines ::
  "(string \<Rightarrow> jsval option) \<Rightarrow> ident \<Rightarrow> string list \<Rightarrow> stream_vars \<Rightarrow> app
     \<Rightarrow> signal \<times> stream_vars \<times> app" where
  "process_lines parse sid [] vars s = (Continue, vars, s)"
| "process_lines parse sid (line # lines) vars s =
     (case handle_line parse sid line vars s of
        (Return, vars', s') \<Rightarrow> (Return, vars', s')
      | (Continue, vars', s') \<Rightarrow> process_lines parse sid lines vars' s')"

text \<open>The body of the response: the chunks that \<^verbatim>\<open>reader.read()\<close> delivers, as the
  streaming \<^verbatim>\<open>TextDecoder\<close> turns them into text, and how the stream ends: with
  \<^verbatim>\<open>done\<close> or with a rejected read. A body that never ends keeps \<^verbatim>\<open>sendMessage\<close>
  waiting for the next read; the model is about the bodies that end.\<close>

datatype stream_end = EndOfData | ReadFails

text \<open>\<^verbatim>\<open>while (true)\<close>: \<open>None\<close> when the loop is left by \<^verbatim>\<open>break\<close> or \<^verbatim>\<open>return\<close>, the
  exception when a read is rejected.\<close>

fun read_loop ::
  "(string \<Rightarrow> jsval option) \<Rightarrow> ident \<Rightarrow> string list \<Rightarrow> stream_end \<Rightarrow> string \<Rightarrow> stream_vars
     \<Rightarrow> app \<Rightarrow> exn option \<times> app" where
  "read_loop parse sid [] EndOfData buffer vars s = (None, s)"
| "read_loop parse sid [] ReadFails buffer vars s = (Some ReadRejected, s)"
| "read_loop parse sid (chunk # chunks) e buffer vars s =
     (let lines = split_nl (buffer @ chunk) in
      case process_lines parse sid (butlast lines) vars s of
        (Return, vars', s') \<Rightarrow> (None, s')
      | (Continue, vars', s') \<Rightarrow> read_loop parse sid chunks e (last lines) vars' s')"

text \<open>What \<^verbatim>\<open>fetch\<close> answers: it rejects, or resolves to a response that is not ok (with its
  status), that has no body, or that has a body to read.\<close>

datatype response = FetchFails | NotOk nat | NoBody | Body "string list" stream_end

text \<open>The \<^verbatim>\<open>catch (err)\<close> block of \<^verbatim>\<open>sendMessage\<close>.\<close>

definition catch_send :: "app \<Rightarrow> app" where
  "catch_send s =
     (let errorMessage =
            \<lparr>msg_id = uuid_next s, role = Assistant,
             content = JStr ''Sorry, I encountered an error sending your message. Please try again.'',
             isError = True\<rparr>
      in s\<lparr>uuid_next := Suc (uuid_next s),
           chat := addMessage errorMessage
             (setTyping False (setError (JStr ''Failed to send message. Please try again.'') (chat s)))\<rparr>)"

text \<open>The \<^verbatim>\<open>try\<close> block of \<^verbatim>\<open>sendMessage\<close>.\<close>

definition try_send ::
  "(string \<Rightarrow> jsval option) \<Rightarrow> ident \<Rightarrow> string \<Rightarrow> response \<Rightarrow> app \<Rightarrow> exn option \<times> app" where
  "try_send parse sid c resp s =
     (let s1 = s\<lparr>chat := setTyping True (chat s)\<rparr>;
          s2 = s1\<lparr>requests := requests s1 @ [PostMessageStream sid c]\<rparr>
      in case resp of
           FetchFails \<Rightarrow> (Some FetchRejected, s2)
         | NotOk status \<Rightarrow> (Some (HttpError status), s2)
         | NoBody \<Rightarrow> (Some NoReader, s2)
         | Body chunks e \<Rightarrow> read_loop parse sid chunks e [] initial_vars s2)"

text \<open>\<^verbatim>\<open>sendMessage(sessionId, content)\<close> of the chat composable, run against the answer
  \<open>resp\<close> of the backend, with no other store access between its steps. The result is
  the exception with which the call is rejected, if any, and the state it leaves.

  The sessions store that \<^verbatim>\<open>'../stores/sessions'\<close> names (\<^verbatim>\<open>stores/sessions.ts\<close>) has no
  action \<^verbatim>\<open>updateSessionTitle\<close>. When the chat has at most two messages after the user
  message was added, the call \<^verbatim>\<open>sessionsStore.updateSessionTitle(sessionId, content)\<close>
  is a call of \<^verbatim>\<open>undefined\<close>: it throws a TypeError before the \<^verbatim>\<open>try\<close>, and
  \<^verbatim>\<open>sendMessage\<close> is rejected with the user message added and nothing else done.\<close>

definition sendMessage ::
  "(string \<Rightarrow> jsval option) \<Rightarrow> ident \<Rightarrow> string \<Rightarrow> response \<Rightarrow> app \<Rightarrow> exn option \<times> app" where
  "sendMessage parse sid c resp s =
     (if trim c = [] then (None, s)
      else
        let userMessage = \<lparr>msg_id = uuid_next s, role = User, content = JStr (trim c), isError = False\<rparr>;
            s1 = s\<lparr>uuid_next := Suc (uuid_next s), chat := addMessage userMessage (chat s)\<rparr>
        in if chat_messageCount (chat s1) \<le> 2 then (Some TypeError, s1)
           else
             let s2 = s1\<lparr>sess := updateSession sid
                        \<lparr>upd_lastMessage = Some (if length c > 50 then substring0 50 c @ ''...'' else c),
                         upd_messageCount = Some (chat_messageCount (chat s1))\<rparr> (sess s1)\<rparr>
             in case try_send parse sid c resp s2 of
                  (None, s3) \<Rightarrow> (None, s3)
                | (Some err, s3) \<Rightarrow> (None, catch_send s3))"

section \<open>Sample data\<close>

text \<open>The values of \<^verbatim>\<open>JSON.parse\<close> on the payloads of the examples; \<^verbatim>\<open>JSON.parse\<close>
  throws on the payload \<^verbatim>\<open>{broken\<close>, and no other payload occurs in them.\<close>

definition sample_parse :: "string \<Rightarrow> jsval option" where
  \<open>sample_parse = map_of
     [(''{"type":"start"}'', JObj [(''type'', JStr ''start'')]),
      (''{"type":"response_start"}'', JObj [(''type'', JStr ''response_start'')]),
      (''{"type":"token","content":"Hel"}'',
         JObj [(''type'', JStr ''token''), (''content'', JStr ''Hel'')]),
      (''{"type":"token","content":"lo"}'',
         JObj [(''type'', JStr ''token''), (''content'', JStr ''lo'')]),
      (''{"type":"complete"}'', JObj [(''type'', JStr ''complete'')])]\<close>

text \<open>A chat with a loaded history of three messages; one session with the default
  title.\<close>

definition sample_app :: app where
  "sample_app =
     \<lparr>chat = \<lparr>sessionId = 1,
              messages =
                [\<lparr>msg_id = 0, role = Assistant,
                   content = JStr ''Hello! Where would you like to go?'', isError = False\<rparr>,
                 \<lparr>msg_id = 1, role = User, content = JStr ''Somewhere warm'', isError = False\<rparr>,
                 \<lparr>msg_id = 2, role = Assistant, content = JStr ''How about Goa?'',
                   isError = False\<rparr>],
              agentActions = [], memoryUpdates = \<lparr>props = Map.empty, proto = ObjectPrototype\<rparr>,
              isTyping = False, error = JNull,
              sessionMessages = Map.empty, sessionActions = Map.empty,
              sessionMemory = Map.empty\<rparr>,
      preferences = initial_preferences,
      sess = \<lparr>sessions = [\<lparr>sess_id = 1, title = ''New Chat'', lastMessage = None,
                             messageCount = 0\<rparr>],
              currentSessionId = 1\<rparr>,
      uuid_next = 3, requests = []\<rparr>"

text \<open>The same with a second, older session in the catalog.\<close>

definition sample_two_sessions :: app where
  "sample_two_sessions =
     sample_app\<lparr>sess := \<lparr>sessions =
        [\<lparr>sess_id = 1, title = ''New Chat'', lastMessage = None, messageCount = 0\<rparr>,
         \<lparr>sess_id = 5, title = ''Trip to Goa'', lastMessage = Some ''Plan a trip to Goa'',
            messageCount = 4\<rparr>],
        currentSessionId = 1\<rparr>\<rparr>"

text \<open>The events start, response\_start, token "Hel", token "lo", complete, as three
  chunks that cut the first token line in two.\<close>

definition sample_stream :: "string list" where
  \<open>sample_stream =
     [''data: {"type":"start"}'' @ [CHR 0x0A, CHR 0x0A] @
      ''data: {"type":"response_start"}'' @ [CHR 0x0A, CHR 0x0A] @ ''data: {"type":"tok'',
      ''en","content":"Hel"}'' @ [CHR 0x0A, CHR 0x0A] @
      ''data: {"type":"token","content":"lo"}'' @ [CHR 0x0A, CHR 0x0A],
      ''data: {"type":"complete"}'' @ [CHR 0x0A, CHR 0x0A]]\<close>

section \<open>Lines and chunks\<close>

lemma split_nl_not_Nil: "split_nl xs \<noteq> []"
  by (induction xs) (auto split: list.splits)

lemma split_nl_no_nl: "CHR 0x0A \<notin> set xs \<Longrightarrow> split_nl xs = [xs]"
  by (induction xs) auto

lemma split_nl_append_nl: "split_nl (xs @ CHR 0x0A # ys) = split_nl xs @ split_nl ys"
proof (induction xs)
  case Nil
  show ?case by simp
next
  case (Cons c cs)
  obtain l ls where "split_nl cs = l # ls"
    using split_nl_not_Nil [of cs] by (cases "split_nl cs") auto
  with Cons show ?case by simp
qed

lemma split_nl_append:
  "split_nl (xs @ ys) = butlast (split_nl xs) @ split_nl (last (split_nl xs) @ ys)"
proof (induction xs)
  case Nil
  show ?case by simp
next
  case (Cons c cs)
  obtain l ls where cs: "split_nl cs = l # ls"
    using split_nl_not_Nil [of cs] by (cases "split_nl cs") auto
  show ?case
  proof (cases "c = CHR 0x0A")
    case True
    with Cons cs show ?thesis by simp
  next
    case False
    show ?thesis
    proof (cases ls)
      case Nil
      with Cons cs False show ?thesis by simp
    next
      case (Cons l' ls')
      with Cons.IH cs False show ?thesis by simp
    qed
  qed
qed

lemma last_split_nl_no_nl: "CHR 0x0A \<notin> set (last (split_nl xs))"
proof (induction xs)
  case Nil
  show ?case by simp
next
  case (Cons c cs)
  obtain l ls where cs: "split_nl cs = l # ls"
    using split_nl_not_Nil [of cs] by (cases "split_nl cs") auto
  with Cons show ?case by (cases ls) auto
qed

lemma process_lines_append:
  "process_lines parse sid (ls1 @ ls2) vars s =
     (case process_lines parse sid ls1 vars s of
        (Return, vars', s') \<Rightarrow> (Return, vars', s')
      | (Continue, vars', s') \<Rightarrow> process_lines parse sid ls2 vars' s')"
proof (induction ls1 arbitrary: vars s)
  case Nil
  show ?case by simp
next
  case (Cons l ls1)
  show ?case
    by (cases "handle_line parse sid l vars s" rule: prod_cases3)
       (auto simp: Cons.IH split: signal.splits)
qed

lemma read_loop_Cons:
  "read_loop parse sid (c # cs) e buffer vars s =
     (case process_lines parse sid (butlast (split_nl (buffer @ c))) vars s of
        (Return, vars', s') \<Rightarrow> (None, s')
      | (Continue, vars', s') \<Rightarrow> read_loop parse sid cs e (last (split_nl (buffer @ c))) vars' s')"
  by (simp add: Let_def)

lemma read_loop_merge:
  "read_loop parse sid (a # b # cs) e buffer vars s =
   read_loop parse sid ((a @ b) # cs) e buffer vars s"
proof -
  let ?l1 = "split_nl (buffer @ a)"
  let ?l2 = "split_nl (last ?l1 @ b)"
  have lines: "split_nl (buffer @ a @ b) = butlast ?l1 @ ?l2"
    using split_nl_append [of "buffer @ a" b] by simp
  have bl: "butlast (split_nl (buffer @ a @ b)) = butlast ?l1 @ butlast ?l2"
    by (simp add: lines butlast_append split_nl_not_Nil)
  have la: "last (split_nl (buffer @ a @ b)) = last ?l2"
    by (simp add: lines split_nl_not_Nil)
  obtain g v t where p1: "process_lines parse sid (butlast ?l1) vars s = (g, v, t)"
    by (cases "process_lines parse sid (butlast ?l1) vars s" rule: prod_cases3)
  have merged: "read_loop parse sid ((a @ b) # cs) e buffer vars s =
      (case process_lines parse sid (butlast ?l1 @ butlast ?l2) vars s of
         (Return, vars', s') \<Rightarrow> (None, s')
       | (Continue, vars', s') \<Rightarrow> read_loop parse sid cs e (last ?l2) vars' s')"
    by (subst read_loop_Cons) (simp only: append_assoc la bl)
  show ?thesis
  proof (cases g)
    case Continue
    have "read_loop parse sid (a # b # cs) e buffer vars s =
          read_loop parse sid (b # cs) e (last ?l1) v t"
      by (subst read_loop_Cons) (simp add: p1 Continue)
    also have "\<dots> = read_loop parse sid ((a @ b) # cs) e buffer vars s"
      unfolding merged by (subst read_loop_Cons) (simp add: process_lines_append p1 Continue)
    finally show ?thesis .
  next
    case Return
    then show ?thesis
      unfolding merged by (subst read_loop_Cons) (simp add: process_lines_append p1)
  qed
qed

lemma read_loop_split_chunk:
  "read_loop parse sid (pre @ a # b # post) e buffer vars s =
   read_loop parse sid (pre @ (a @ b) # post) e buffer vars s"
proof (induction pre arbitrary: buffer vars s)
  case Nil
  show ?case by (simp only: append_Nil read_loop_merge)
next
  case (Cons c pre)
  show ?case
    by (cases "process_lines parse sid (butlast (split_nl (buffer @ c))) vars s" rule: prod_cases3)
       (auto simp: Cons.IH split: signal.splits)
qed

lemma read_loop_concat:
  "CHR 0x0A \<notin> set buffer \<Longrightarrow>
   read_loop parse sid cs e buffer vars s = read_loop parse sid [concat cs] e buffer vars s"
proof (induction cs arbitrary: buffer vars s)
  case Nil
  then show ?case by (cases e) (simp_all add: split_nl_no_nl)
next
  case (Cons c cs)
  have "read_loop parse sid [concat (c # cs)] e buffer vars s =
        read_loop parse sid [c, concat cs] e buffer vars s"
    using read_loop_merge [of parse sid c "concat cs" "[]" e buffer vars s] by simp
  also have "\<dots> = read_loop parse sid (c # cs) e buffer vars s"
  proof -
    obtain g v t where p: "process_lines parse sid (butlast (split_nl (buffer @ c))) vars s = (g, v, t)"
      by (cases "process_lines parse sid (butlast (split_nl (buffer @ c))) vars s" rule: prod_cases3)
    have ih: "read_loop parse sid cs e (last (split_nl (buffer @ c))) v t =
              read_loop parse sid [concat cs] e (last (split_nl (buffer @ c))) v t"
      by (rule Cons.IH [OF last_split_nl_no_nl])
    show ?thesis
      by (cases g) (simp_all only: read_loop_Cons [of parse sid c _ e buffer vars s] p ih
                      prod.case signal.case)
  qed
  finally show ?case by simp
qed

lemma read_loop_EndOfData: "fst (read_loop parse sid cs EndOfData buffer vars s) = None"
proof (induction cs arbitrary: buffer vars s)
  case Nil
  show ?case by simp
next
  case (Cons c cs)
  show ?case
    by (cases "process_lines parse sid (butlast (split_nl (buffer @ c))) vars s" rule: prod_cases3)
       (auto simp: Cons.IH split: signal.splits)
qed

section \<open>Chunk boundaries\<close>

lemma sendMessage_same_body:
  assumes "\<And>t. try_send parse sid c r1 t = try_send parse sid c r2 t"
  shows "sendMessage parse sid c r1 s = sendMessage parse sid c r2 s"
  by (simp add: sendMessage_def Let_def assms)

text \<open>
  Claim C5. For every event line and every split position, delivering the line as two
  consecutive chunks cut at that position has the same effect on all stores as
  delivering it as one chunk: the unfinished trailing line stays in the buffer across
  reads, so no part of a line is dropped or processed twice. The chunks before and
  after, the way the stream ends and the state at the call are arbitrary.
\<close>

theorem split_line_same:
  "sendMessage parse sid c (Body (pre @ [take n line, drop n line] @ post) e) s =
   sendMessage parse sid c (Body (pre @ [line] @ post) e) s"
proof -
  have "read_loop parse sid (pre @ take n line # drop n line # post) e buffer vars t =
        read_loop parse sid (pre @ line # post) e buffer vars t" for buffer vars t
    using read_loop_split_chunk [of parse sid pre "take n line" "drop n line" post e buffer vars t]
    by simp
  then show ?thesis
    by (intro sendMessage_same_body) (simp add: try_send_def)
qed

section \<open>Blank input\<close>

text \<open>
  Claim C9. \<^verbatim>\<open>sendMessage\<close> with a content that is empty or only white space returns at
  once, without an exception: no user message, no request, the typing flag, the error and
  every store as they were. The state of the model holds the three stores, the
  identifier supply and the log of requests, so this is equality of states.
\<close>

theorem blank_content_noop:
  "trim c = [] \<Longrightarrow> sendMessage parse sid c resp s = (None, s)"
  by (simp add: sendMessage_def)

theorem blank_content_noop_witness:
  "trim ''   '' = [] \<and>
   sendMessage sample_parse 1 ''   '' (Body sample_stream EndOfData) sample_app =
     (None, sample_app)"
  using blank_content_noop [of "''   ''" sample_parse 1 "Body sample_stream EndOfData" sample_app]
  by (simp add: trim_def is_space_def)

section \<open>Tokens without a message in progress\<close>

text \<open>
  Claim C10. A token event that arrives while no assistant message is in progress
  (\<^verbatim>\<open>currentMessage\<close> is \<^verbatim>\<open>null\<close>, as it is from the start of a stream until the first
  \<^verbatim>\<open>response_start\<close>) is ignored: the line changes neither the variables of the stream
  nor any store, nothing is thrown, and the loop goes on with the next line.
\<close>

theorem token_without_response_start:
  assumes "parse (slice_from 6 line) = Some data"
    and "get_prop data ''type'' = JStr ''token''"
    and "currentMessage vars = None"
  shows "handle_line parse sid line vars s = (Continue, vars, s)"
proof -
  have "data \<noteq> JNull" "data \<noteq> Undefined"
    using assms(2) by auto
  then have "switch_event sid data vars s = (Inr Continue, vars, s)"
    using assms(2,3) by (simp add: switch_event_def on_token_def)
  then show ?thesis
    using assms(1) by (simp add: handle_line_def try_line_def Let_def)
qed

theorem token_without_response_start_witness:
  \<open>sample_parse (slice_from 6 ''data: {"type":"token","content":"Hel"}'') =
      Some (JObj [(''type'', JStr ''token''), (''content'', JStr ''Hel'')]) \<and>
    get_prop (JObj [(''type'', JStr ''token''), (''content'', JStr ''Hel'')]) ''type'' =
      JStr ''token'' \<and>
    currentMessage initial_vars = None \<and>
    handle_line sample_parse 1 ''data: {"type":"token","content":"Hel"}'' initial_vars sample_app =
      (Continue, initial_vars, sample_app)\<close>
proof -
  have p: \<open>sample_parse (slice_from 6 ''data: {"type":"token","content":"Hel"}'') =
      Some (JObj [(''type'', JStr ''token''), (''content'', JStr ''Hel'')])\<close>
    by (simp add: sample_parse_def slice_from_def)
  have t: "get_prop (JObj [(''type'', JStr ''token''), (''content'', JStr ''Hel'')]) ''type'' =
      JStr ''token''"
    by simp
  have c: "currentMessage initial_vars = None"
    by (simp add: initial_vars_def)
  show ?thesis
    using p t c
      token_without_response_start
        [where parse = sample_parse
           and data = "JObj [(''type'', JStr ''token''), (''content'', JStr ''Hel'')]"
           and vars = initial_vars and sid = 1 and s = sample_app, OF p t c]
    by simp
qed

section \<open>The typing indicator at the end of the stream\<close>

lemma catch_send_clears_typing: "isTyping (chat (catch_send s)) = False"
  by (simp add: catch_send_def Let_def addMessage_def setTyping_def)

lemma sendMessage_long_chat:
  assumes "trim c \<noteq> []" and "2 \<le> length (messages (chat s))"
  shows "sendMessage parse sid c resp s =
     (let userMessage = \<lparr>msg_id = uuid_next s, role = User, content = JStr (trim c),
                           isError = False\<rparr>;
          s1 = s\<lparr>uuid_next := Suc (uuid_next s), chat := addMessage userMessage (chat s)\<rparr>;
          s2 = s1\<lparr>sess := updateSession sid
                 \<lparr>upd_lastMessage = Some (if length c > 50 then substring0 50 c @ ''...'' else c),
                  upd_messageCount = Some (chat_messageCount (chat s1))\<rparr> (sess s1)\<rparr>
      in case try_send parse sid c resp s2 of
           (None, s3) \<Rightarrow> (None, s3)
         | (Some err, s3) \<Rightarrow> (None, catch_send s3))"
  using assms by (simp add: sendMessage_def Let_def chat_messageCount_def addMessage_def)

lemma first_message_rejected:
  assumes "trim c \<noteq> []" and "length (messages (chat s)) < 2"
  shows "sendMessage parse sid c resp s =
     (Some TypeError,
      s\<lparr>uuid_next := Suc (uuid_next s),
        chat := addMessage \<lparr>msg_id = uuid_next s, role = User, content = JStr (trim c),
                            isError = False\<rparr> (chat s)\<rparr>)"
  using assms by (simp add: sendMessage_def Let_def chat_messageCount_def addMessage_def)

lemma transport_failure_clears_typing:
  assumes "trim c \<noteq> []" and "2 \<le> length (messages (chat s))"
    and "resp = FetchFails \<or> resp = NotOk status \<or> resp = NoBody"
  shows "isTyping (chat (snd (sendMessage parse sid c resp s))) = False"
  using assms(3)
  by (auto simp: sendMessage_long_chat [OF assms(1,2)] try_send_def Let_def
      catch_send_clears_typing)

lemma typing_left_on_in_general:
  assumes "trim c \<noteq> []" and "2 \<le> length (messages (chat s))"
  shows "fst (sendMessage parse sid c (Body [] EndOfData) s) = None \<and>
         isTyping (chat (snd (sendMessage parse sid c (Body [] EndOfData) s))) = True"
  by (simp add: sendMessage_long_chat [OF assms] try_send_def Let_def setTyping_def)

text \<open>
  Claim C2 says that the typing indicator is off on every path on which \<^verbatim>\<open>sendMessage\<close>
  returns. The \<^verbatim>\<open>complete\<close> case, the \<^verbatim>\<open>error\<close> case and the \<^verbatim>\<open>catch\<close> block each call
  \<^verbatim>\<open>setTyping(false)\<close>; the path that leaves the loop with \<^verbatim>\<open>break\<close> when the reader is
  done does not. In a chat that holds three messages, when the backend answers with a
  body that ends before any event, \<^verbatim>\<open>sendMessage\<close> returns without an exception and
  the indicator that it switched on before the request is still on.
\<close>

theorem typing_left_on_at_end_of_data:
  "fst (sendMessage sample_parse 1 ''hi'' (Body [] EndOfData) sample_app) = None \<and>
   isTyping (chat (snd (sendMessage sample_parse 1 ''hi'' (Body [] EndOfData) sample_app))) = True"
  by (simp add: sendMessage_def try_send_def trim_def is_space_def Let_def setTyping_def
      addMessage_def chat_messageCount_def sample_app_def)

section \<open>Malformed lines\<close>

lemma handle_line_unparsable:
  "parse (slice_from 6 line) = None \<Longrightarrow> handle_line parse sid line vars s = (Continue, vars, s)"
  by (simp add: handle_line_def try_line_def Let_def)

lemma process_lines_skip:
  assumes "\<And>vars s. handle_line parse sid line vars s = (Continue, vars, s)"
  shows "process_lines parse sid (xs @ line # ys) vars s = process_lines parse sid (xs @ ys) vars s"
proof -
  obtain g v t where p: "process_lines parse sid xs vars s = (g, v, t)"
    by (cases "process_lines parse sid xs vars s" rule: prod_cases3)
  show ?thesis
    by (cases g) (simp_all add: process_lines_append p assms)
qed

lemma read_loop_single_skip:
  assumes bad: "parse (slice_from 6 bad) = None"
    and nl: "CHR 0x0A \<notin> set bad"
    and boundary: "before = [] \<or> last before = CHR 0x0A"
  shows "read_loop parse sid [before @ bad @ CHR 0x0A # after] e [] vars s =
         read_loop parse sid [before @ after] e [] vars s"
proof -
  obtain pre where pre: "split_nl (before @ bad @ CHR 0x0A # after) = pre @ bad # split_nl after"
    "split_nl (before @ after) = pre @ split_nl after"
  proof (cases "before = []")
    case True
    have "split_nl (before @ bad @ CHR 0x0A # after) = [] @ bad # split_nl after"
      using True nl by (simp add: split_nl_append_nl split_nl_no_nl)
    moreover have "split_nl (before @ after) = [] @ split_nl after"
      using True by simp
    ultimately show ?thesis by (rule that)
  next
    case False
    with boundary obtain b where b: "before = b @ [CHR 0x0A]"
      by (metis append_butlast_last_id)
    have "split_nl (before @ bad @ CHR 0x0A # after) = split_nl b @ bad # split_nl after"
      using nl by (simp add: b split_nl_append_nl split_nl_no_nl)
    moreover have "split_nl (before @ after) = split_nl b @ split_nl after"
      by (simp add: b split_nl_append_nl)
    ultimately show ?thesis by (rule that)
  qed
  have bl1: "butlast (split_nl (before @ bad @ CHR 0x0A # after)) = pre @ bad # butlast (split_nl after)"
    by (simp add: pre butlast_append split_nl_not_Nil)
  have bl2: "butlast (split_nl (before @ after)) = pre @ butlast (split_nl after)"
    by (simp add: pre butlast_append split_nl_not_Nil)
  have la: "last (split_nl (before @ bad @ CHR 0x0A # after)) = last (split_nl (before @ after))"
    by (simp add: pre split_nl_not_Nil)
  have skip: "process_lines parse sid (pre @ bad # butlast (split_nl after)) vars s =
              process_lines parse sid (pre @ butlast (split_nl after)) vars s"
    by (rule process_lines_skip) (rule handle_line_unparsable [of parse bad, OF bad])
  show ?thesis
    by (simp only: read_loop_Cons append_Nil bl1 bl2 la skip)
qed

text \<open>
  Claim C4. A line whose payload \<^verbatim>\<open>JSON.parse\<close> rejects is discarded: the line itself
  changes nothing, and a stream that carries it between two line boundaries, with any
  text before and after it and cut into chunks in any way, leaves every store exactly as
  the stream without the line does, so the events around it take effect as they would
  without it. The loop ends without an exception when the stream ends with end-of-data.
\<close>

theorem malformed_line_skipped:
  assumes bad: "parse (slice_from 6 bad) = None"
    and nl: "CHR 0x0A \<notin> set bad"
    and boundary: "before = [] \<or> last before = CHR 0x0A"
    and c1: "concat dirty = before @ bad @ CHR 0x0A # after"
    and c2: "concat clean = before @ after"
  shows "handle_line parse sid bad vars s = (Continue, vars, s) \<and>
         read_loop parse sid dirty e [] vars s = read_loop parse sid clean e [] vars s \<and>
         fst (read_loop parse sid dirty EndOfData [] vars s) = None \<and>
         sendMessage parse sid c (Body dirty e) s = sendMessage parse sid c (Body clean e) s"
proof -
  have loop: "read_loop parse sid dirty e [] v t = read_loop parse sid clean e [] v t" for v t
  proof -
    have "read_loop parse sid dirty e [] v t = read_loop parse sid [concat dirty] e [] v t"
      by (rule read_loop_concat) simp
    also have "\<dots> = read_loop parse sid [concat clean] e [] v t"
      unfolding c1 c2 by (rule read_loop_single_skip [of parse bad before, OF bad nl boundary])
    also have "\<dots> = read_loop parse sid clean e [] v t"
      by (rule read_loop_concat [symmetric]) simp
    finally show ?thesis .
  qed
  have send: "sendMessage parse sid c (Body dirty e) s = sendMessage parse sid c (Body clean e) s"
    by (intro sendMessage_same_body) (simp add: try_send_def loop)
  show ?thesis
    by (simp add: handle_line_unparsable [of parse bad, OF bad] loop read_loop_EndOfData send)
qed


theorem malformed_line_skipped_witness:
  \<open>sample_parse (slice_from 6 ''data: {broken'') = None \<and>
    CHR 0x0A \<notin> set ''data: {broken'' \<and>
    (''data: {"type":"start"}'' @ [CHR 0x0A] = [] \<or>
       last (''data: {"type":"start"}'' @ [CHR 0x0A]) = CHR 0x0A) \<and>
    concat [(''data: {"type":"start"}'' @ [CHR 0x0A]) @ ''data: {broken'' @
              CHR 0x0A # (''data: {"type":"response_start"}'' @ [CHR 0x0A])] =
      (''data: {"type":"start"}'' @ [CHR 0x0A]) @ ''data: {broken'' @
        CHR 0x0A # (''data: {"type":"response_start"}'' @ [CHR 0x0A]) \<and>
    concat [''data: {"type":"start"}'' @ [CHR 0x0A],
            ''data: {"type":"response_start"}'' @ [CHR 0x0A]] =
      (''data: {"type":"start"}'' @ [CHR 0x0A]) @
        (''data: {"type":"response_start"}'' @ [CHR 0x0A]) \<and>
    (handle_line sample_parse 1 ''data: {broken'' initial_vars sample_app =
       (Continue, initial_vars, sample_app) \<and>
     read_loop sample_parse 1
        [(''data: {"type":"start"}'' @ [CHR 0x0A]) @ ''data: {broken'' @
           CHR 0x0A # (''data: {"type":"response_start"}'' @ [CHR 0x0A])]
        EndOfData [] initial_vars sample_app =
     read_loop sample_parse 1
        [''data: {"type":"start"}'' @ [CHR 0x0A],
         ''data: {"type":"response_start"}'' @ [CHR 0x0A]]
        EndOfData [] initial_vars sample_app \<and>
     fst (read_loop sample_parse 1
        [(''data: {"type":"start"}'' @ [CHR 0x0A]) @ ''data: {broken'' @
           CHR 0x0A # (''data: {"type":"response_start"}'' @ [CHR 0x0A])]
        EndOfData [] initial_vars sample_app) = None \<and>
     sendMessage sample_parse 1 ''hi''
        (Body [(''data: {"type":"start"}'' @ [CHR 0x0A]) @ ''data: {broken'' @
                 CHR 0x0A # (''data: {"type":"response_start"}'' @ [CHR 0x0A])] EndOfData)
        sample_app =
     sendMessage sample_parse 1 ''hi''
        (Body [''data: {"type":"start"}'' @ [CHR 0x0A],
               ''data: {"type":"response_start"}'' @ [CHR 0x0A]] EndOfData)
        sample_app)\<close>
proof -
  let ?before = \<open>''data: {"type":"start"}'' @ [CHR 0x0A]\<close>
  let ?after = \<open>''data: {"type":"response_start"}'' @ [CHR 0x0A]\<close>
  let ?bad = "''data: {broken''"
  have h1: "sample_parse (slice_from 6 ?bad) = None"
    by (simp add: sample_parse_def slice_from_def)
  have h2: "CHR 0x0A \<notin> set ?bad"
    by simp
  have h3: "?before = [] \<or> last ?before = CHR 0x0A"
    by simp
  have h4: "concat [?before @ ?bad @ CHR 0x0A # ?after] = ?before @ ?bad @ CHR 0x0A # ?after"
    by simp
  have h5: "concat [?before, ?after] = ?before @ ?after"
    by simp
  note inst = malformed_line_skipped
    [where parse = sample_parse and bad = ?bad and before = ?before and after = ?after
       and dirty = "[?before @ ?bad @ CHR 0x0A # ?after]" and clean = "[?before, ?after]"
       and sid = 1 and vars = initial_vars and s = sample_app and e = EndOfData and c = "''hi''",
     OF h1 h2 h3 h4 h5]
  show ?thesis
    by (intro conjI h1 h2 h3 h4 h5 inst [THEN conjunct1] inst [THEN conjunct2, THEN conjunct1]
        inst [THEN conjunct2, THEN conjunct2, THEN conjunct1]
        inst [THEN conjunct2, THEN conjunct2, THEN conjunct2])
qed

section \<open>Deleting a session\<close>

text \<open>
  Claim C7. With exactly one session in the catalog, \<^verbatim>\<open>deleteSession\<close> returns
  \<^verbatim>\<open>false\<close> and changes nothing: not the entries, not the current session id, and no
  request is sent. With two or more sessions it returns \<^verbatim>\<open>true\<close> whatever the backend
  answers (also when the request fails), and the catalog is left with the sessions of
  another id; only when no session of another id exists and the deleted one was
  current, a fresh session takes their place.
\<close>

theorem deleteSession_last_or_more:
  "(length (sessions (sess s)) = 1 \<longrightarrow> deleteSession remote sid s = (False, s)) \<and>
   (2 \<le> length (sessions (sess s)) \<longrightarrow>
      fst (deleteSession remote sid s) = True \<and>
      sessions (sess (snd (deleteSession remote sid s))) =
        (let rest = filter (\<lambda>x. sess_id x \<noteq> sid) (sessions (sess s)) in
         if rest = [] \<and> currentSessionId (sess s) = sid
         then [\<lparr>sess_id = uuid_next s, title = ''New Chat'', lastMessage = None, messageCount = 0\<rparr>]
         else rest))"
  by (auto simp: deleteSession_def createSession_def Let_def split: list.splits)

theorem deleteSession_last_or_more_witness:
  "length (sessions (sess sample_app)) = 1 \<and>
   deleteSession RemoteOk 1 sample_app = (False, sample_app) \<and>
   2 \<le> length (sessions (sess sample_two_sessions)) \<and>
   fst (deleteSession RemoteRejects 1 sample_two_sessions) = True \<and>
   sessions (sess (snd (deleteSession RemoteRejects 1 sample_two_sessions))) =
     [\<lparr>sess_id = 5, title = ''Trip to Goa'', lastMessage = Some ''Plan a trip to Goa'',
        messageCount = 4\<rparr>]"
proof -
  have one: "length (sessions (sess sample_app)) = 1"
    by (simp add: sample_app_def)
  have two: "2 \<le> length (sessions (sess sample_two_sessions))"
    by (simp add: sample_two_sessions_def)
  have rest: "filter (\<lambda>x. sess_id x \<noteq> 1) (sessions (sess sample_two_sessions)) =
     [\<lparr>sess_id = 5, title = ''Trip to Goa'', lastMessage = Some ''Plan a trip to Goa'',
        messageCount = 4\<rparr>]"
    by (simp add: sample_two_sessions_def)
  show ?thesis
    using one two rest
      deleteSession_last_or_more [of sample_app RemoteOk 1]
      deleteSession_last_or_more [of sample_two_sessions RemoteRejects 1]
    by (simp add: Let_def)
qed

section \<open>Deriving the title\<close>

lemma find_update_first:
  "(\<And>x. p (f x) = p x) \<Longrightarrow> find p (update_first p f xs) = map_option f (find p xs)"
  by (induction xs) auto

lemma title_of_updateSessionFromMessage:
  "title_of sid (updateSessionFromMessage sid m st) =
     map_option (\<lambda>x. title (from_message m x)) (find (\<lambda>x. sess_id x = sid) (sessions st))"
proof -
  have "sess_id (from_message m x) = sess_id x" for x
    by (simp add: from_message_def Let_def)
  then show ?thesis
    by (simp add: title_of_def updateSessionFromMessage_def find_update_first option.map_comp comp_def)
qed

lemma title_from_message:
  "title (from_message m x) =
     (if title x = ''New Chat'' \<and> trim m \<noteq> [] then derive_title m else title x)"
  by (simp add: from_message_def Let_def)

lemma title_of_step:
  "title_of sid (updateSessionFromMessage sid m st) =
     (if title_of sid st = Some ''New Chat'' \<and> trim m \<noteq> [] then Some (derive_title m)
      else title_of sid st)"
  unfolding title_of_updateSessionFromMessage
  by (cases "find (\<lambda>x. sess_id x = sid) (sessions st)")
     (auto simp: title_from_message title_of_def)

lemma title_of_kept:
  "title_of sid st \<noteq> Some ''New Chat'' \<Longrightarrow>
   title_of sid (foldl (\<lambda>st m. updateSessionFromMessage sid m st) st ms) = title_of sid st"
  by (induction ms arbitrary: st) (simp_all add: title_of_step)

lemma title_of_changed:
  "title_of sid (foldl (\<lambda>st m. updateSessionFromMessage sid m st) st ms) \<noteq> title_of sid st \<Longrightarrow>
   title_of sid (foldl (\<lambda>st m. updateSessionFromMessage sid m st) st ms) \<noteq> Some ''New Chat''"
  by (cases "title_of sid st = Some ''New Chat''") (simp_all add: title_of_kept)

text \<open>
  Claim C3. \<^verbatim>\<open>updateSessionFromMessage\<close> changes the title of the session only when the
  title is still \<^verbatim>\<open>New Chat\<close> and the message is not empty after trimming; a session whose
  title is not \<^verbatim>\<open>New Chat\<close> keeps its title through any number of later calls; and once a
  sequence of calls has changed the title, no further call changes it again.
\<close>

theorem title_set_at_most_once:
  "(title_of sid (updateSessionFromMessage sid m st) \<noteq> title_of sid st \<longrightarrow>
      title_of sid st = Some ''New Chat'' \<and> trim m \<noteq> []) \<and>
   (title_of sid st \<noteq> Some ''New Chat'' \<longrightarrow>
      title_of sid (foldl (\<lambda>st m. updateSessionFromMessage sid m st) st ms) = title_of sid st) \<and>
   (title_of sid (foldl (\<lambda>st m. updateSessionFromMessage sid m st) st ms) \<noteq> title_of sid st \<longrightarrow>
      title_of sid (foldl (\<lambda>st m. updateSessionFromMessage sid m st)
                     (foldl (\<lambda>st m. updateSessionFromMessage sid m st) st ms) ms') =
      title_of sid (foldl (\<lambda>st m. updateSessionFromMessage sid m st) st ms))"
  using title_of_changed [of sid st ms]
  by (auto simp: title_of_step title_of_kept)

lemma sample_title: "title_of 1 (updateSessionFromMessage 1 ''Plan a trip to Goa'' (sess sample_app)) = Some ''Trip to Goa''"
  unfolding title_of_step
  by (simp add: title_of_def sample_app_def trim_def is_space_def derive_title_def
      travel_at_def lit_then_words_def ci_prefix_def toLowerCase_def toLowerChar_def match_words_def is_word_def
      is_line_terminator_def)


theorem title_set_at_most_once_witness:
  "title_of 1 (updateSessionFromMessage 1 ''Plan a trip to Goa'' (sess sample_app)) \<noteq>
     title_of 1 (sess sample_app) \<and>
   title_of 1 (sess sample_app) = Some ''New Chat'' \<and> trim ''Plan a trip to Goa'' \<noteq> [] \<and>
   title_of 5 (sess sample_two_sessions) \<noteq> Some ''New Chat'' \<and>
   title_of 5 (foldl (\<lambda>st m. updateSessionFromMessage 5 m st) (sess sample_two_sessions)
                 [''Visit Paris'']) = title_of 5 (sess sample_two_sessions) \<and>
   title_of 1 (foldl (\<lambda>st m. updateSessionFromMessage 1 m st) (sess sample_app)
                 [''Plan a trip to Goa'']) \<noteq> title_of 1 (sess sample_app) \<and>
   title_of 1 (foldl (\<lambda>st m. updateSessionFromMessage 1 m st)
                 (foldl (\<lambda>st m. updateSessionFromMessage 1 m st) (sess sample_app)
                    [''Plan a trip to Goa''])
                 [''Visit Paris'']) =
   title_of 1 (foldl (\<lambda>st m. updateSessionFromMessage 1 m st) (sess sample_app)
                 [''Plan a trip to Goa''])"
proof -
  have start: "title_of 1 (sess sample_app) = Some ''New Chat''"
    by (simp add: title_of_def sample_app_def)
  have ha: "title_of 1 (updateSessionFromMessage 1 ''Plan a trip to Goa'' (sess sample_app)) \<noteq>
     title_of 1 (sess sample_app)"
    using sample_title start by simp
  have hb: "title_of 5 (sess sample_two_sessions) \<noteq> Some ''New Chat''"
    by (simp add: title_of_def sample_two_sessions_def)
  have hc: "title_of 1 (foldl (\<lambda>st m. updateSessionFromMessage 1 m st) (sess sample_app)
                 [''Plan a trip to Goa'']) \<noteq> title_of 1 (sess sample_app)"
    using ha by simp
  note first = title_set_at_most_once
    [of 1 "''Plan a trip to Goa''" "sess sample_app" "[''Plan a trip to Goa'']" "[''Visit Paris'']"]
  note second = title_set_at_most_once
    [of 5 "''Visit Paris''" "sess sample_two_sessions" "[''Visit Paris'']" "[]"]
  have ca: "title_of 1 (sess sample_app) = Some ''New Chat'' \<and> trim ''Plan a trip to Goa'' \<noteq> []"
    using first ha by blast
  have cb: "title_of 5 (foldl (\<lambda>st m. updateSessionFromMessage 5 m st) (sess sample_two_sessions)
                 [''Visit Paris'']) = title_of 5 (sess sample_two_sessions)"
    using second hb by blast
  have cc: "title_of 1 (foldl (\<lambda>st m. updateSessionFromMessage 1 m st)
                 (foldl (\<lambda>st m. updateSessionFromMessage 1 m st) (sess sample_app)
                    [''Plan a trip to Goa''])
                 [''Visit Paris'']) =
   title_of 1 (foldl (\<lambda>st m. updateSessionFromMessage 1 m st) (sess sample_app)
                 [''Plan a trip to Goa''])"
    using first hc by blast
  show ?thesis
    using ha ca hb cb hc cc by blast
qed

section \<open>Memory updates\<close>

lemma js_has_iff: "js_has obj key \<longleftrightarrow> props obj key \<noteq> None \<or> inherited (proto obj) key"
  by (simp add: js_has_def split: option.splits)

lemma js_set_other: "a \<noteq> k \<Longrightarrow> props (js_set a v obj) k = props obj k"
  by (simp add: js_set_def split: jsval.splits)

lemma js_set_own: "props obj k \<noteq> None \<Longrightarrow> props (js_set k v obj) k = Some v"
  by (auto simp: js_set_def)

lemma js_set_plain: "k \<noteq> ''__proto__'' \<Longrightarrow> js_set k v obj = obj\<lparr>props := (props obj)(k \<mapsto> v)\<rparr>"
  by (simp add: js_set_def)

lemma js_set_keeps: "props obj k \<noteq> None \<Longrightarrow> props (js_set a v obj) k \<noteq> None"
  by (cases "a = k") (simp_all add: js_set_own js_set_other)

lemma guarded_other:
  "k \<notin> set ks \<Longrightarrow>
   props (foldl (\<lambda>q key. if js_has q key then updatePreference key (g key) q else q) p ks) k =
   props p k"
  by (induction ks arbitrary: p) (auto simp: updatePreference_def js_set_other)

lemma guarded_own:
  "props p k \<noteq> None \<Longrightarrow> k \<in> set ks \<Longrightarrow>
   props (foldl (\<lambda>q key. if js_has q key then updatePreference key (g key) q else q) p ks) k =
   Some (g k)"
proof (induction ks arbitrary: p)
  case Nil
  then show ?case by simp
next
  case (Cons a ks)
  let ?p1 = "if js_has p a then updatePreference a (g a) p else p"
  have kept: "props ?p1 k \<noteq> None"
    using Cons.prems(1) js_set_keeps [of p k a "g a"] by (simp add: updatePreference_def)
  show ?case
  proof (cases "k \<in> set ks")
    case True
    then show ?thesis
      using Cons.IH [OF kept True] by simp
  next
    case False
    with Cons.prems(2) have ak: "a = k" by simp
    have "props ?p1 k = Some (g k)"
      using Cons.prems(1) by (simp add: ak js_has_iff updatePreference_def js_set_own)
    then show ?thesis
      using guarded_other [OF False, of g ?p1] by simp
  qed
qed

lemma guarded_inherited:
  "js_has p k \<Longrightarrow> k \<noteq> ''__proto__'' \<Longrightarrow> ''__proto__'' \<notin> set ks \<Longrightarrow> k \<in> set ks \<Longrightarrow>
   props (foldl (\<lambda>q key. if js_has q key then updatePreference key (g key) q else q) p ks) k =
   Some (g k)"
proof (induction ks arbitrary: p)
  case Nil
  then show ?case by simp
next
  case (Cons a ks)
  let ?p1 = "if js_has p a then updatePreference a (g a) p else p"
  have a: "a \<noteq> ''__proto__''" and ks: "''__proto__'' \<notin> set ks"
    using Cons.prems(3) by auto
  show ?case
  proof (cases "a = k")
    case True
    have own: "props ?p1 k = Some (g k)"
      using Cons.prems(1,2) by (simp add: True updatePreference_def js_set_plain)
    show ?thesis
    proof (cases "k \<in> set ks")
      case True
      from own have "props ?p1 k \<noteq> None" by simp
      from guarded_own [OF this True, of g] show ?thesis by simp
    next
      case False
      from guarded_other [OF False, of g ?p1] own show ?thesis by simp
    qed
  next
    case False
    with Cons.prems(4) have k: "k \<in> set ks" by simp
    have "js_has ?p1 k"
      using Cons.prems(1) a False by (simp add: updatePreference_def js_set_plain js_has_iff)
    from Cons.IH [OF this Cons.prems(2) ks k] show ?thesis by simp
  qed
qed

lemma guarded_unknown:
  "\<not> js_has p k \<Longrightarrow> ''__proto__'' \<notin> set ks \<Longrightarrow>
   props (foldl (\<lambda>q key. if js_has q key then updatePreference key (g key) q else q) p ks) k =
   None"
proof (induction ks arbitrary: p)
  case Nil
  then show ?case by (simp add: js_has_iff)
next
  case (Cons a ks)
  let ?p1 = "if js_has p a then updatePreference a (g a) p else p"
  have a: "a \<noteq> ''__proto__''" and ks: "''__proto__'' \<notin> set ks"
    using Cons.prems(2) by auto
  have "\<not> js_has ?p1 k"
    using Cons.prems(1) a by (auto simp: updatePreference_def js_set_plain js_has_iff)
  from Cons.IH [OF this ks] show ?case by simp
qed

lemma assigned_other:
  "k \<notin> set ks \<Longrightarrow> props (foldl (\<lambda>obj key. js_set key (g key) obj) t ks) k = props t k"
  by (induction ks arbitrary: t) (auto simp: js_set_other)

lemma assigned_key:
  "k \<in> set ks \<Longrightarrow> k \<noteq> ''__proto__'' \<Longrightarrow>
   props (foldl (\<lambda>obj key. js_set key (g key) obj) t ks) k = Some (g k)"
proof (induction ks arbitrary: t)
  case Nil
  then show ?case by simp
next
  case (Cons a ks)
  show ?case
  proof (cases "k \<in> set ks")
    case True
    from Cons.IH [OF True Cons.prems(2)] show ?thesis by simp
  next
    case False
    with Cons.prems(1) have "a = k" by simp
    then have "props (js_set a (g a) t) k = Some (g k)"
      using Cons.prems(2) by (simp add: js_set_plain)
    then show ?thesis
      using assigned_other [OF False, of g "js_set a (g a) t"] by simp
  qed
qed

lemma sample_keys:
  "Object_keys (JObj [(''destination'', JStr ''Goa'')]) = [''destination'']"
  "Object_keys (JObj [(''budget'', JNum 25000)]) = [''budget'']"
  "Object_keys (JObj [(''travel_style'', JStr ''luxury'')]) = [''travel_style'']"
  "get_own (JObj [(''destination'', JStr ''Goa'')]) ''destination'' = JStr ''Goa''"
  "get_own (JObj [(''budget'', JNum 25000)]) ''budget'' = JNum 25000"
  by (simp_all add: Object_keys_def get_own_def)

lemma scenario_destination:
  "props (setFromMemoryUpdates (JObj [(''budget'', JNum 25000)])
     (setFromMemoryUpdates (JObj [(''destination'', JStr ''Goa'')]) initial_preferences))
     ''destination'' = Some (JStr ''Goa'')"
proof -
  have "props initial_preferences ''destination'' \<noteq> None"
    by (simp add: initial_preferences_def)
  then have "props (setFromMemoryUpdates (JObj [(''destination'', JStr ''Goa'')]) initial_preferences)
      ''destination'' = Some (JStr ''Goa'')"
    unfolding setFromMemoryUpdates_def sample_keys
    by (subst guarded_own) (simp_all add: sample_keys)
  then show ?thesis
    unfolding setFromMemoryUpdates_def [of "JObj [(''budget'', JNum 25000)]"] sample_keys
    by (subst guarded_other) simp_all
qed

lemma scenario_budget:
  "props (setFromMemoryUpdates (JObj [(''budget'', JNum 25000)])
     (setFromMemoryUpdates (JObj [(''destination'', JStr ''Goa'')]) initial_preferences))
     ''budget'' = Some (JNum 25000)"
proof -
  have "props (setFromMemoryUpdates (JObj [(''destination'', JStr ''Goa'')]) initial_preferences)
      ''budget'' = props initial_preferences ''budget''"
    unfolding setFromMemoryUpdates_def sample_keys
    by (subst guarded_other) simp_all
  then have "props (setFromMemoryUpdates (JObj [(''destination'', JStr ''Goa'')]) initial_preferences)
      ''budget'' \<noteq> None"
    by (simp add: initial_preferences_def)
  then show ?thesis
    unfolding setFromMemoryUpdates_def [of "JObj [(''budget'', JNum 25000)]"] sample_keys
    by (subst guarded_own) (simp_all add: sample_keys)
qed

lemma travel_style_unknown: "\<not> js_has initial_preferences ''travel_style''"
  by (simp add: js_has_iff initial_preferences_def Object_prototype_names_def)

text \<open>
  Claim C8 says that a key present in a memory update overwrites that key's value in the
  preference set. \<^verbatim>\<open>setFromMemoryUpdates\<close> guards the assignment with
  \<^verbatim>\<open>key in preferences.value\<close>: the key \<^verbatim>\<open>travel_style\<close> of an update is neither a property
  of the preference object nor inherited by it, and does not get the update's value.
\<close>

theorem unknown_key_not_stored:
  "props (setFromMemoryUpdates (JObj [(''travel_style'', JStr ''luxury'')]) initial_preferences)
     ''travel_style'' \<noteq> Some (JStr ''luxury'')"
  unfolding setFromMemoryUpdates_def sample_keys
  using travel_style_unknown by (subst guarded_unknown) simp_all

text \<open>
  Claim C8, amended. A memory update is merged into the preference object key by key.
  A key of the update that is an own property of the preference object, as the eight
  preference fields are, gets the update's value. So does a key other than
  \<^verbatim>\<open>__proto__\<close> that the preference object inherits, when the update has no key
  \<^verbatim>\<open>__proto__\<close>. A key of the update that the preference object neither has nor
  inherits is not stored, when the update has no key \<^verbatim>\<open>__proto__\<close>. A key that the
  update does not have keeps its value. The memory of the chat store takes every key of
  the update other than \<^verbatim>\<open>__proto__\<close> and keeps the keys that the update does not have.
  The update \<^verbatim>\<open>{destination: "Goa"}\<close> followed by \<^verbatim>\<open>{budget: 25000}\<close> on the initial
  preferences leaves destination \<^verbatim>\<open>Goa\<close> and budget 25000.
\<close>

theorem memory_updates_merge:
  "(k \<in> set (Object_keys u) \<and> props p k \<noteq> None \<longrightarrow>
      props (setFromMemoryUpdates u p) k = Some (get_own u k)) \<and>
   (k \<in> set (Object_keys u) \<and> js_has p k \<and> k \<noteq> ''__proto__'' \<and>
      ''__proto__'' \<notin> set (Object_keys u) \<longrightarrow>
      props (setFromMemoryUpdates u p) k = Some (get_own u k)) \<and>
   (k \<in> set (Object_keys u) \<and> \<not> js_has p k \<and> ''__proto__'' \<notin> set (Object_keys u) \<longrightarrow>
      props (setFromMemoryUpdates u p) k = None) \<and>
   (k \<notin> set (Object_keys u) \<longrightarrow> props (setFromMemoryUpdates u p) k = props p k) \<and>
   (k \<in> set (Object_keys u) \<and> k \<noteq> ''__proto__'' \<longrightarrow>
      props (memoryUpdates (updateMemory u c)) k = Some (get_own u k)) \<and>
   (k \<notin> set (Object_keys u) \<longrightarrow>
      props (memoryUpdates (updateMemory u c)) k = props (memoryUpdates c) k) \<and>
   props (setFromMemoryUpdates (JObj [(''budget'', JNum 25000)])
     (setFromMemoryUpdates (JObj [(''destination'', JStr ''Goa'')]) initial_preferences))
     ''destination'' = Some (JStr ''Goa'') \<and>
   props (setFromMemoryUpdates (JObj [(''budget'', JNum 25000)])
     (setFromMemoryUpdates (JObj [(''destination'', JStr ''Goa'')]) initial_preferences))
     ''budget'' = Some (JNum 25000)"
proof -
  have g1: "k \<in> set (Object_keys u) \<and> props p k \<noteq> None \<longrightarrow>
      props (setFromMemoryUpdates u p) k = Some (get_own u k)"
    unfolding setFromMemoryUpdates_def using guarded_own [of p k "Object_keys u" "get_own u"]
    by blast
  have g2: "k \<in> set (Object_keys u) \<and> js_has p k \<and> k \<noteq> ''__proto__'' \<and>
      ''__proto__'' \<notin> set (Object_keys u) \<longrightarrow>
      props (setFromMemoryUpdates u p) k = Some (get_own u k)"
    unfolding setFromMemoryUpdates_def
    using guarded_inherited [of p k "Object_keys u" "get_own u"] by blast
  have g3: "k \<in> set (Object_keys u) \<and> \<not> js_has p k \<and> ''__proto__'' \<notin> set (Object_keys u) \<longrightarrow>
      props (setFromMemoryUpdates u p) k = None"
    unfolding setFromMemoryUpdates_def
    using guarded_unknown [of p k "Object_keys u" "get_own u"] by blast
  have g4: "k \<notin> set (Object_keys u) \<longrightarrow> props (setFromMemoryUpdates u p) k = props p k"
    unfolding setFromMemoryUpdates_def
    using guarded_other [of k "Object_keys u" "get_own u" p] by blast
  have g5: "k \<in> set (Object_keys u) \<and> k \<noteq> ''__proto__'' \<longrightarrow>
      props (memoryUpdates (updateMemory u c)) k = Some (get_own u k)"
    using assigned_key [of k "Object_keys u" "get_own u" "memoryUpdates c"]
    by (simp add: updateMemory_def Object_assign_def)
  have g6: "k \<notin> set (Object_keys u) \<longrightarrow>
      props (memoryUpdates (updateMemory u c)) k = props (memoryUpdates c) k"
    using assigned_other [of k "Object_keys u" "get_own u" "memoryUpdates c"]
    by (simp add: updateMemory_def Object_assign_def)
  show ?thesis
    by (intro conjI g1 g2 g3 g4 g5 g6 scenario_destination scenario_budget)
qed

theorem memory_updates_merge_witness:
  "(''destination'' \<in> set (Object_keys (JObj [(''destination'', JStr ''Goa'')])) \<and>
      props initial_preferences ''destination'' \<noteq> None) \<and>
   props (setFromMemoryUpdates (JObj [(''destination'', JStr ''Goa'')]) initial_preferences)
     ''destination'' = Some (get_own (JObj [(''destination'', JStr ''Goa'')]) ''destination'') \<and>
   (''constructor'' \<in> set (Object_keys (JObj [(''constructor'', JStr ''x'')])) \<and>
      js_has initial_preferences ''constructor'' \<and> ''constructor'' \<noteq> ''__proto__'' \<and>
      ''__proto__'' \<notin> set (Object_keys (JObj [(''constructor'', JStr ''x'')]))) \<and>
   props (setFromMemoryUpdates (JObj [(''constructor'', JStr ''x'')]) initial_preferences)
     ''constructor'' = Some (get_own (JObj [(''constructor'', JStr ''x'')]) ''constructor'') \<and>
   (''travel_style'' \<in> set (Object_keys (JObj [(''travel_style'', JStr ''luxury'')])) \<and>
      \<not> js_has initial_preferences ''travel_style'' \<and>
      ''__proto__'' \<notin> set (Object_keys (JObj [(''travel_style'', JStr ''luxury'')]))) \<and>
   props (setFromMemoryUpdates (JObj [(''travel_style'', JStr ''luxury'')]) initial_preferences)
     ''travel_style'' = None \<and>
   ''budget'' \<notin> set (Object_keys (JObj [(''destination'', JStr ''Goa'')])) \<and>
   props (setFromMemoryUpdates (JObj [(''destination'', JStr ''Goa'')]) initial_preferences)
     ''budget'' = props initial_preferences ''budget'' \<and>
   (''destination'' \<in> set (Object_keys (JObj [(''destination'', JStr ''Goa'')])) \<and>
      ''destination'' \<noteq> ''__proto__'') \<and>
   props (memoryUpdates (updateMemory (JObj [(''destination'', JStr ''Goa'')]) (chat sample_app)))
     ''destination'' = Some (get_own (JObj [(''destination'', JStr ''Goa'')]) ''destination'') \<and>
   props (memoryUpdates (updateMemory (JObj [(''destination'', JStr ''Goa'')]) (chat sample_app)))
     ''budget'' = props (memoryUpdates (chat sample_app)) ''budget''"
proof -
  let ?u = "JObj [(''destination'', JStr ''Goa'')]"
  let ?v = "JObj [(''travel_style'', JStr ''luxury'')]"
  let ?w = "JObj [(''constructor'', JStr ''x'')]"
  have h1: "''destination'' \<in> set (Object_keys ?u) \<and> props initial_preferences ''destination'' \<noteq> None"
    by (simp add: initial_preferences_def Object_keys_def)
  have h2: "''constructor'' \<in> set (Object_keys ?w) \<and> js_has initial_preferences ''constructor'' \<and>
      ''constructor'' \<noteq> ''__proto__'' \<and> ''__proto__'' \<notin> set (Object_keys ?w)"
    by (simp add: js_has_def initial_preferences_def Object_keys_def Object_prototype_names_def)
  have h3: "''travel_style'' \<in> set (Object_keys ?v) \<and> \<not> js_has initial_preferences ''travel_style'' \<and>
      ''__proto__'' \<notin> set (Object_keys ?v)"
    by (simp add: js_has_def initial_preferences_def Object_keys_def Object_prototype_names_def)
  have h4: "''budget'' \<notin> set (Object_keys ?u)"
    by (simp add: Object_keys_def)
  have h5: "''destination'' \<in> set (Object_keys ?u) \<and> ''destination'' \<noteq> ''__proto__''"
    by (simp add: Object_keys_def)
  note a = memory_updates_merge [of "''destination''" ?u initial_preferences "chat sample_app"]
  note b = memory_updates_merge [of "''constructor''" ?w initial_preferences "chat sample_app"]
  note c = memory_updates_merge [of "''travel_style''" ?v initial_preferences "chat sample_app"]
  note d = memory_updates_merge [of "''budget''" ?u initial_preferences "chat sample_app"]
  have c1: "props (setFromMemoryUpdates ?u initial_preferences) ''destination'' =
      Some (get_own ?u ''destination'')"
    using a [THEN conjunct1] h1 by (rule mp)
  have c2: "props (setFromMemoryUpdates ?w initial_preferences) ''constructor'' =
      Some (get_own ?w ''constructor'')"
    using b [THEN conjunct2, THEN conjunct1] h2 by (rule mp)
  have c3: "props (setFromMemoryUpdates ?v initial_preferences) ''travel_style'' = None"
    using c [THEN conjunct2, THEN conjunct2, THEN conjunct1] h3 by (rule mp)
  have c4: "props (setFromMemoryUpdates ?u initial_preferences) ''budget'' =
      props initial_preferences ''budget''"
    using d [THEN conjunct2, THEN conjunct2, THEN conjunct2, THEN conjunct1] h4 by (rule mp)
  have c5: "props (memoryUpdates (updateMemory ?u (chat sample_app))) ''destination'' =
      Some (get_own ?u ''destination'')"
    using a [THEN conjunct2, THEN conjunct2, THEN conjunct2, THEN conjunct2, THEN conjunct1] h5
    by (rule mp)
  have c6: "props (memoryUpdates (updateMemory ?u (chat sample_app))) ''budget'' =
      props (memoryUpdates (chat sample_app)) ''budget''"
    using d [THEN conjunct2, THEN conjunct2, THEN conjunct2, THEN conjunct2, THEN conjunct2,
             THEN conjunct1] h4
    by (rule mp)
  show ?thesis
    by (intro conjI h1 [THEN conjunct1] h1 [THEN conjunct2] h2 [THEN conjunct1]
        h2 [THEN conjunct2, THEN conjunct1] h2 [THEN conjunct2, THEN conjunct2, THEN conjunct1]
        h2 [THEN conjunct2, THEN conjunct2, THEN conjunct2]
        h3 [THEN conjunct1] h3 [THEN conjunct2, THEN conjunct1] h3 [THEN conjunct2, THEN conjunct2]
        h4 h5 [THEN conjunct1] h5 [THEN conjunct2] c1 c2 c3 c4 c5 c6)
qed

section \<open>Events\<close>

lemma handle_line_no_event:
  "event_of parse line = None \<Longrightarrow> handle_line parse sid line vars s = (Continue, vars, s)"
  by (auto simp: event_of_def handle_line_def try_line_def Let_def split: if_splits)

lemma handle_line_event:
  "event_of parse line = Some data \<Longrightarrow>
   handle_line parse sid line vars s =
     (case switch_event sid data vars s of
        (Inl e, v, t) \<Rightarrow> (Continue, v, t)
      | (Inr g, v, t) \<Rightarrow> (g, v, t))"
  by (auto simp: event_of_def handle_line_def try_line_def Let_def split: if_splits)

lemma typed_not_null:
  "get_prop data ''type'' = JStr kind \<Longrightarrow> data \<noteq> JNull \<and> data \<noteq> Undefined"
  by auto

lemma switch_start:
  "get_prop data ''type'' = JStr ''start'' \<Longrightarrow>
   switch_event sid data vars s = (Inr Continue, vars, s\<lparr>chat := setTyping True (chat s)\<rparr>)"
  using typed_not_null [of data "''start''"] by (simp add: switch_event_def)

lemma switch_response_start:
  "get_prop data ''type'' = JStr ''response_start'' \<Longrightarrow>
   switch_event sid data vars s =
     (Inr Continue,
      \<lparr>currentMessage = Some \<lparr>msg_id = uuid_next s, role = Assistant, content = JStr [], isError = False\<rparr>,
       aliased = Some (length (messages (chat s))), messageContent = []\<rparr>,
      s\<lparr>uuid_next := Suc (uuid_next s),
        chat := setTyping False
          (addMessage \<lparr>msg_id = uuid_next s, role = Assistant, content = JStr [], isError = False\<rparr>
             (chat s))\<rparr>)"
  using typed_not_null [of data "''response_start''"] by (simp add: switch_event_def Let_def)

lemma switch_complete:
  assumes "get_prop data ''type'' = JStr ''complete''"
    and "messages (chat s) \<noteq> []"
    and "content (last (messages (chat s))) = JStr c"
  shows "switch_event sid data vars s =
     (Inr Return, vars,
      s\<lparr>chat := saveCurrentSession (setTyping False (chat s)),
        sess := updateSession sid
          \<lparr>upd_lastMessage = Some (substring0 50 c @ ''...''),
           upd_messageCount = Some (length (messages (chat s)))\<rparr> (sess s)\<rparr>)"
  using typed_not_null [of data "''complete''"] assms
  by (simp add: switch_event_def Let_def final_preview_def saveCurrentSession_def setTyping_def
      chat_messageCount_def)

lemma findIndex_append_fresh:
  "\<forall>x \<in> set pre. \<not> p x \<Longrightarrow> p y \<Longrightarrow> findIndex p (pre @ [y]) = Some (length pre)"
  by (induction pre) auto

lemma switch_token:
  assumes ty: "get_prop data ''type'' = JStr ''token''"
    and payload: "get_prop data ''content'' = JStr t"
    and cur: "currentMessage vars = Some m"
    and ms: "messages (chat s) = pre @ [m0]"
    and same: "msg_id m0 = msg_id m"
    and fresh: "msg_id m \<notin> msg_id ` set pre"
    and al: "aliased vars = None \<or> aliased vars = Some (length pre)"
  shows "switch_event sid data vars s =
     (Inr Continue,
      vars\<lparr>currentMessage := Some (m\<lparr>content := JStr (messageContent vars @ t)\<rparr>),
           messageContent := messageContent vars @ t, aliased := None\<rparr>,
      s\<lparr>chat := (chat s)\<lparr>messages := pre @ [m\<lparr>content := JStr (messageContent vars @ t)\<rparr>]\<rparr>\<rparr>)"
proof -
  let ?m' = "m\<lparr>content := JStr (messageContent vars @ t)\<rparr>"
  have others: "\<forall>x \<in> set pre. \<not> msg_id x = msg_id ?m'"
    using fresh by (auto simp: image_iff)
  have idx: "findIndex (\<lambda>x. msg_id x = msg_id ?m') (pre @ [y]) = Some (length pre)"
    if "msg_id y = msg_id m" for y
    using others that by (intro findIndex_append_fresh) simp_all
  have tok: "on_token data vars s =
     (vars\<lparr>currentMessage := Some ?m', messageContent := messageContent vars @ t, aliased := None\<rparr>,
      s\<lparr>chat := (chat s)\<lparr>messages := pre @ [?m']\<rparr>\<rparr>)"
    using al
  proof
    assume a: "aliased vars = None"
    show ?thesis
      using idx [of m0] same by (simp add: on_token_def cur payload ms a Let_def)
  next
    assume a: "aliased vars = Some (length pre)"
    show ?thesis
      using idx [of ?m'] by (simp add: on_token_def cur payload ms a Let_def)
  qed
  show ?thesis
    using typed_not_null [of data "''token''"] ty by (simp add: switch_event_def tok)
qed

lemma token_lineD:
  "token_line parse line t \<Longrightarrow>
   \<exists>data. event_of parse line = Some data \<and> get_prop data ''type'' = JStr ''token'' \<and>
          get_prop data ''content'' = JStr t"
  by (cases "event_of parse line") (simp_all add: token_line_def)

lemma event_lineD:
  "event_line parse line kind \<Longrightarrow>
   \<exists>data. event_of parse line = Some data \<and> get_prop data ''type'' = JStr kind"
  by (cases "event_of parse line") (simp_all add: event_line_def)

lemma tokens_run:
  assumes "list_all2 (token_line parse) ls ts"
    and "currentMessage vars = Some m"
    and "content m = JStr (messageContent vars)"
    and "messages (chat s) = pre @ [m]"
    and "msg_id m \<notin> msg_id ` set pre"
    and "aliased vars = None \<or> aliased vars = Some (length pre)"
  shows "\<exists>vars'. process_lines parse sid ls vars s =
     (Continue, vars',
      s\<lparr>chat := (chat s)\<lparr>messages := pre @ [m\<lparr>content := JStr (messageContent vars @ concat ts)\<rparr>]\<rparr>\<rparr>)"
  using assms
proof (induction ls ts arbitrary: vars s m rule: list_all2_induct)
  case Nil
  have "m\<lparr>content := JStr (messageContent vars)\<rparr> = m"
    using Nil(2) by simp
  then have "s\<lparr>chat := (chat s)\<lparr>messages := pre @ [m\<lparr>content := JStr (messageContent vars @ concat [])\<rparr>]\<rparr>\<rparr> = s"
    using Nil(3) by simp
  then show ?case by simp
next
  case (Cons l ls t ts)
  obtain data where ev: "event_of parse l = Some data"
    and ty: "get_prop data ''type'' = JStr ''token''"
    and payload: "get_prop data ''content'' = JStr t"
    using token_lineD [OF Cons.hyps(1)] by blast
  let ?m1 = "m\<lparr>content := JStr (messageContent vars @ t)\<rparr>"
  let ?vars1 = "vars\<lparr>currentMessage := Some ?m1, messageContent := messageContent vars @ t,
                     aliased := None\<rparr>"
  let ?s1 = "s\<lparr>chat := (chat s)\<lparr>messages := pre @ [?m1]\<rparr>\<rparr>"
  have step: "handle_line parse sid l vars s = (Continue, ?vars1, ?s1)"
    using switch_token [OF ty payload Cons.prems(1) Cons.prems(3) refl Cons.prems(4) Cons.prems(5)]
    by (simp add: handle_line_event [OF ev])
  have "\<exists>vars'. process_lines parse sid ls ?vars1 ?s1 =
     (Continue, vars',
      ?s1\<lparr>chat := (chat ?s1)\<lparr>messages := pre @ [?m1\<lparr>content := JStr (messageContent ?vars1 @ concat ts)\<rparr>]\<rparr>\<rparr>)"
    using Cons.prems(4) by (intro Cons.IH) simp_all
  then show ?case
    by (simp add: step)
qed

lemma response_start_tokens:
  assumes rs: "event_line parse l0 ''response_start''"
    and toks: "list_all2 (token_line parse) ls ts"
    and fresh: "uuid_next s \<notin> msg_id ` set (messages (chat s))"
  shows "\<exists>vars'. process_lines parse sid (l0 # ls) vars s =
     (Continue, vars',
      s\<lparr>uuid_next := Suc (uuid_next s),
        chat := (chat s)\<lparr>isTyping := False,
          messages := messages (chat s) @
            [\<lparr>msg_id = uuid_next s, role = Assistant, content = JStr (concat ts),
              isError = False\<rparr>]\<rparr>\<rparr>)"
proof -
  obtain data where ev: "event_of parse l0 = Some data"
    and ty: "get_prop data ''type'' = JStr ''response_start''"
    using event_lineD [OF rs] by blast
  let ?m = "\<lparr>msg_id = uuid_next s, role = Assistant, content = JStr [], isError = False\<rparr>"
  let ?vars0 = "\<lparr>currentMessage = Some ?m, aliased = Some (length (messages (chat s))),
                 messageContent = []\<rparr>"
  let ?s0 = "s\<lparr>uuid_next := Suc (uuid_next s), chat := setTyping False (addMessage ?m (chat s))\<rparr>"
  have step: "handle_line parse sid l0 vars s = (Continue, ?vars0, ?s0)"
    by (simp add: handle_line_event [OF ev] switch_response_start [OF ty])
  have "\<exists>vars'. process_lines parse sid ls ?vars0 ?s0 =
     (Continue, vars',
      ?s0\<lparr>chat := (chat ?s0)\<lparr>messages := messages (chat s) @
          [?m\<lparr>content := JStr (messageContent ?vars0 @ concat ts)\<rparr>]\<rparr>\<rparr>)"
    using fresh by (intro tokens_run [OF toks]) (simp_all add: setTyping_def addMessage_def)
  then show ?thesis
    by (simp add: step setTyping_def addMessage_def)
qed

section \<open>The sample stream\<close>

lemma process_lines_events_only:
  "process_lines parse sid (filter (\<lambda>l. event_of parse l \<noteq> None) ls) vars s =
   process_lines parse sid ls vars s"
proof (induction ls arbitrary: vars s)
  case Nil
  show ?case by simp
next
  case (Cons l ls)
  show ?case
  proof (cases "event_of parse l")
    case None
    then show ?thesis
      using Cons.IH by (simp add: handle_line_no_event)
  next
    case (Some data)
    then show ?thesis
      using Cons.IH
      by (cases "handle_line parse sid l vars s" rule: prod_cases3)
         (auto split: signal.splits)
  qed
qed

lemma sample_stream_lines:
  \<open>butlast (split_nl (concat sample_stream)) =
     [''data: {"type":"start"}'', [],
      ''data: {"type":"response_start"}'', [],
      ''data: {"type":"token","content":"Hel"}'', [],
      ''data: {"type":"token","content":"lo"}'', [],
      ''data: {"type":"complete"}'', []]\<close>
  by (simp add: sample_stream_def)

lemma sample_events:
  \<open>event_of sample_parse ''data: {"type":"start"}'' = Some (JObj [(''type'', JStr ''start'')])\<close>
  \<open>event_line sample_parse ''data: {"type":"response_start"}'' ''response_start''\<close>
  \<open>token_line sample_parse ''data: {"type":"token","content":"Hel"}'' ''Hel''\<close>
  \<open>token_line sample_parse ''data: {"type":"token","content":"lo"}'' ''lo''\<close>
  \<open>event_of sample_parse ''data: {"type":"complete"}'' = Some (JObj [(''type'', JStr ''complete'')])\<close>
  \<open>event_of sample_parse [] = None\<close>
  by (simp_all add: event_of_def event_line_def token_line_def sample_parse_def startsWith_def
      slice_from_def trim_def is_space_def)


lemma sample_event_lines:
  \<open>filter (\<lambda>l. event_of sample_parse l \<noteq> None) (butlast (split_nl (concat sample_stream))) =
     [''data: {"type":"start"}'',
      ''data: {"type":"response_start"}'',
      ''data: {"type":"token","content":"Hel"}'',
      ''data: {"type":"token","content":"lo"}'',
      ''data: {"type":"complete"}'']\<close>
proof -
  have rs: \<open>event_of sample_parse ''data: {"type":"response_start"}'' \<noteq> None\<close>
    using event_lineD [OF sample_events(2)] by auto
  have t1: \<open>event_of sample_parse ''data: {"type":"token","content":"Hel"}'' \<noteq> None\<close>
    using token_lineD [OF sample_events(3)] by auto
  have t2: \<open>event_of sample_parse ''data: {"type":"token","content":"lo"}'' \<noteq> None\<close>
    using token_lineD [OF sample_events(4)] by auto
  show ?thesis
    unfolding sample_stream_lines
    using rs t1 t2 by (simp add: sample_events(1,5,6))
qed

section \<open>Tokens of one response\<close>

lemma complete_line:
  assumes ev: "event_line parse line ''complete''"
    and nonempty: "messages (chat s) \<noteq> []"
    and str: "content (last (messages (chat s))) = JStr c"
  shows "handle_line parse sid line vars s =
     (Return, vars,
      s\<lparr>chat := saveCurrentSession (setTyping False (chat s)),
        sess := updateSession sid
          \<lparr>upd_lastMessage = Some (substring0 50 c @ ''...''),
           upd_messageCount = Some (length (messages (chat s)))\<rparr> (sess s)\<rparr>)"
proof -
  obtain data where d: "event_of parse line = Some data"
    and ty: "get_prop data ''type'' = JStr ''complete''"
    using event_lineD [OF ev] by blast
  show ?thesis
    by (simp add: handle_line_event [OF d] switch_complete [OF ty nonempty str])
qed

lemma prelude_step:
  assumes ev: "event_of parse l = Some data"
    and ty: "get_prop data ''type'' \<notin>
            {JStr ''response_start'', JStr ''token'', JStr ''complete'', JStr ''error''}"
  shows "\<exists>s1. handle_line parse sid l vars s = (Continue, vars, s1) \<and>
        messages (chat s1) = messages (chat s) \<and> uuid_next s1 = uuid_next s"
  using ty
  by (auto simp: handle_line_event [OF ev] switch_event_def Let_def setTyping_def
      addAgentAction_def updateMemory_def split: jsval.splits)

lemma prelude_run:
  "list_all (prelude_line parse) prelude \<Longrightarrow>
   \<exists>s1. process_lines parse sid prelude vars s = (Continue, vars, s1) \<and>
        messages (chat s1) = messages (chat s) \<and> uuid_next s1 = uuid_next s"
proof (induction prelude arbitrary: s)
  case Nil
  show ?case by simp
next
  case (Cons l prelude)
  from Cons.prems have l: "prelude_line parse l"
    and others: "list_all (prelude_line parse) prelude"
    by simp_all
  obtain data where ev: "event_of parse l = Some data"
    and ty: "get_prop data ''type'' \<notin>
            {JStr ''response_start'', JStr ''token'', JStr ''complete'', JStr ''error''}"
    using l by (cases "event_of parse l") (simp_all add: prelude_line_def)
  obtain s0 where step: "handle_line parse sid l vars s = (Continue, vars, s0)"
    and ms0: "messages (chat s0) = messages (chat s)" and nx0: "uuid_next s0 = uuid_next s"
    using prelude_step [OF ev ty, of sid vars s] by blast
  obtain s1 where run: "process_lines parse sid prelude vars s0 = (Continue, vars, s1)"
    and ms: "messages (chat s1) = messages (chat s0)" and nx: "uuid_next s1 = uuid_next s0"
    using Cons.IH [OF others, of s0] by blast
  show ?case
    using run ms nx by (simp add: step ms0 nx0)
qed

lemma stream_response:
  assumes fresh: "uuid_next s \<notin> msg_id ` set (messages (chat s))"
    and lines: "filter (\<lambda>l. event_of parse l \<noteq> None) (butlast (split_nl (concat chunks))) =
        prelude @ l0 # ls @ fin"
    and st: "list_all (prelude_line parse) prelude"
    and rs: "event_line parse l0 ''response_start''"
    and toks: "list_all2 (token_line parse) ls ts"
    and fin: "case fin of [] \<Rightarrow> e = EndOfData | l # others \<Rightarrow> event_line parse l ''complete''"
  shows "\<exists>s'. read_loop parse sid chunks e [] vars s = (None, s') \<and>
     messages (chat s') = messages (chat s) @
       [\<lparr>msg_id = uuid_next s, role = Assistant, content = JStr (concat ts), isError = False\<rparr>] \<and>
     isTyping (chat s') = False"
proof -
  let ?a = "\<lparr>msg_id = uuid_next s, role = Assistant, content = JStr (concat ts), isError = False\<rparr>"
  obtain s1 where run1: "process_lines parse sid prelude vars s = (Continue, vars, s1)"
    and ms1: "messages (chat s1) = messages (chat s)" and nx1: "uuid_next s1 = uuid_next s"
    using prelude_run [OF st, of sid vars s] by blast
  define s2 where "s2 = s1\<lparr>uuid_next := Suc (uuid_next s1),
        chat := (chat s1)\<lparr>isTyping := False,
          messages := messages (chat s1) @
            [\<lparr>msg_id = uuid_next s1, role = Assistant, content = JStr (concat ts),
              isError = False\<rparr>]\<rparr>\<rparr>"
  have fresh1: "uuid_next s1 \<notin> msg_id ` set (messages (chat s1))"
    using fresh by (simp add: ms1 nx1)
  obtain vars' where mid: "process_lines parse sid (l0 # ls) vars s1 = (Continue, vars', s2)"
    using response_start_tokens [OF rs toks fresh1, of sid vars] unfolding s2_def by blast
  have ms2: "messages (chat s2) = messages (chat s) @ [?a]"
    by (simp add: s2_def ms1 nx1)
  have ty2: "isTyping (chat s2) = False"
    by (simp add: s2_def)
  have "process_lines parse sid (butlast (split_nl (concat chunks))) vars s =
        process_lines parse sid
          (filter (\<lambda>l. event_of parse l \<noteq> None) (butlast (split_nl (concat chunks)))) vars s"
    by (rule process_lines_events_only [symmetric])
  also have "\<dots> = process_lines parse sid (prelude @ (l0 # ls) @ fin) vars s"
    by (simp only: lines append.simps)
  also have "\<dots> = process_lines parse sid ((l0 # ls) @ fin) vars s1"
    by (simp only: process_lines_append [of parse sid prelude] run1 prod.case signal.case)
  also have "\<dots> = process_lines parse sid fin vars' s2"
    by (simp only: process_lines_append [of parse sid "l0 # ls"] mid prod.case signal.case)
  finally have pl: "process_lines parse sid (butlast (split_nl ([] @ concat chunks))) vars s =
      process_lines parse sid fin vars' s2"
    by (simp only: append_Nil)
  have loop: "read_loop parse sid chunks e [] vars s =
      (case process_lines parse sid fin vars' s2 of
         (Return, v, t) \<Rightarrow> (None, t)
       | (Continue, v, t) \<Rightarrow> read_loop parse sid [] e (last (split_nl ([] @ concat chunks))) v t)"
  proof -
    have "read_loop parse sid chunks e [] vars s = read_loop parse sid [concat chunks] e [] vars s"
      by (rule read_loop_concat) simp
    also have "\<dots> = (case process_lines parse sid fin vars' s2 of
         (Return, v, t) \<Rightarrow> (None, t)
       | (Continue, v, t) \<Rightarrow> read_loop parse sid [] e (last (split_nl ([] @ concat chunks))) v t)"
      by (simp only: read_loop_Cons pl)
    finally show ?thesis .
  qed
  show ?thesis
  proof (cases fin)
    case Nil
    with fin have e: "e = EndOfData" by simp
    have "read_loop parse sid chunks e [] vars s = (None, s2)"
      unfolding loop Nil by (simp add: e)
    then show ?thesis
      using ms2 ty2 by blast
  next
    case (Cons l others)
    with fin have l: "event_line parse l ''complete''" by simp
    let ?s3 = "s2\<lparr>chat := saveCurrentSession (setTyping False (chat s2)),
        sess := updateSession sid
          \<lparr>upd_lastMessage = Some (substring0 50 (concat ts) @ ''...''),
           upd_messageCount = Some (length (messages (chat s2)))\<rparr> (sess s2)\<rparr>"
    have "handle_line parse sid l vars' s2 = (Return, vars', ?s3)"
      by (rule complete_line [OF l]) (simp_all add: ms2)
    then have "read_loop parse sid chunks e [] vars s = (None, ?s3)"
      unfolding loop Cons by simp
    moreover have "messages (chat ?s3) = messages (chat s) @ [?a]"
      by (simp add: saveCurrentSession_def setTyping_def Let_def ms2)
    moreover have "isTyping (chat ?s3) = False"
      by (simp add: saveCurrentSession_def setTyping_def Let_def)
    ultimately show ?thesis by blast
  qed
qed

lemma send_response:
  assumes c: "trim c \<noteq> []"
    and long: "2 \<le> length (messages (chat s))"
    and fresh: "Suc (uuid_next s) \<notin> msg_id ` set (messages (chat s))"
    and lines: "filter (\<lambda>l. event_of parse l \<noteq> None) (butlast (split_nl (concat chunks))) =
        prelude @ l0 # ls @ fin"
    and st: "list_all (prelude_line parse) prelude"
    and rs: "event_line parse l0 ''response_start''"
    and toks: "list_all2 (token_line parse) ls ts"
    and fin: "case fin of [] \<Rightarrow> e = EndOfData | l # others \<Rightarrow> event_line parse l ''complete''"
  shows "fst (sendMessage parse sid c (Body chunks e) s) = None \<and>
     messages (chat (snd (sendMessage parse sid c (Body chunks e) s))) =
       messages (chat s) @
         [\<lparr>msg_id = uuid_next s, role = User, content = JStr (trim c), isError = False\<rparr>,
          \<lparr>msg_id = Suc (uuid_next s), role = Assistant, content = JStr (concat ts),
            isError = False\<rparr>] \<and>
     isTyping (chat (snd (sendMessage parse sid c (Body chunks e) s))) = False"
proof -
  define u where "u = \<lparr>msg_id = uuid_next s, role = User, content = JStr (trim c), isError = False\<rparr>"
  define s5 where "s5 =
     (let s1 = s\<lparr>uuid_next := Suc (uuid_next s), chat := addMessage u (chat s)\<rparr>;
          s2 = s1\<lparr>sess := updateSession sid
                 \<lparr>upd_lastMessage = Some (if length c > 50 then substring0 50 c @ ''...'' else c),
                  upd_messageCount = Some (chat_messageCount (chat s1))\<rparr> (sess s1)\<rparr>;
          s3 = s2\<lparr>chat := setTyping True (chat s2)\<rparr>
      in s3\<lparr>requests := requests s3 @ [PostMessageStream sid c]\<rparr>)"
  have ms: "messages (chat s5) = messages (chat s) @ [u]"
    by (simp add: s5_def Let_def addMessage_def setTyping_def)
  have nx: "uuid_next s5 = Suc (uuid_next s)"
    by (simp add: s5_def Let_def)
  have send: "sendMessage parse sid c (Body chunks e) s =
      (case read_loop parse sid chunks e [] initial_vars s5 of
         (None, s4) \<Rightarrow> (None, s4) | (Some err, s4) \<Rightarrow> (None, catch_send s4))"
    unfolding sendMessage_long_chat [OF c long]
    by (simp add: try_send_def s5_def u_def Let_def)
  have fresh5: "uuid_next s5 \<notin> msg_id ` set (messages (chat s5))"
    using fresh by (simp add: ms nx u_def)
  obtain s' where run: "read_loop parse sid chunks e [] initial_vars s5 = (None, s')"
    and ms': "messages (chat s') = messages (chat s5) @
       [\<lparr>msg_id = uuid_next s5, role = Assistant, content = JStr (concat ts), isError = False\<rparr>]"
    and ty: "isTyping (chat s') = False"
    using stream_response [OF fresh5 lines st rs toks fin, of sid initial_vars] by blast
  show ?thesis
    by (simp add: send run ms' ty ms nx u_def)
qed

lemma sample_hypotheses:
  \<open>trim ''Tell me more'' \<noteq> []\<close>
  \<open>2 \<le> length (messages (chat sample_app))\<close>
  \<open>Suc (uuid_next sample_app) \<notin> msg_id ` set (messages (chat sample_app))\<close>
  \<open>filter (\<lambda>l. event_of sample_parse l \<noteq> None) (butlast (split_nl (concat sample_stream))) =
     [''data: {"type":"start"}''] @ ''data: {"type":"response_start"}'' #
     [''data: {"type":"token","content":"Hel"}'', ''data: {"type":"token","content":"lo"}''] @
     [''data: {"type":"complete"}'']\<close>
  \<open>list_all (prelude_line sample_parse) [''data: {"type":"start"}'']\<close>
  \<open>event_line sample_parse ''data: {"type":"response_start"}'' ''response_start''\<close>
  \<open>list_all2 (token_line sample_parse)
     [''data: {"type":"token","content":"Hel"}'', ''data: {"type":"token","content":"lo"}'']
     [''Hel'', ''lo'']\<close>
  \<open>case [''data: {"type":"complete"}''] of [] \<Rightarrow> EndOfData = EndOfData
   | l # others \<Rightarrow> event_line sample_parse l ''complete''\<close>
proof -
  show \<open>trim ''Tell me more'' \<noteq> []\<close>
    by (simp add: trim_def is_space_def)
  show \<open>2 \<le> length (messages (chat sample_app))\<close>
    by (simp add: sample_app_def)
  show \<open>Suc (uuid_next sample_app) \<notin> msg_id ` set (messages (chat sample_app))\<close>
    by (simp add: sample_app_def)
  show \<open>filter (\<lambda>l. event_of sample_parse l \<noteq> None) (butlast (split_nl (concat sample_stream))) =
     [''data: {"type":"start"}''] @ ''data: {"type":"response_start"}'' #
     [''data: {"type":"token","content":"Hel"}'', ''data: {"type":"token","content":"lo"}''] @
     [''data: {"type":"complete"}'']\<close>
    by (simp only: sample_event_lines append.simps)
  show \<open>list_all (prelude_line sample_parse) [''data: {"type":"start"}'']\<close>
    by (simp add: prelude_line_def sample_events(1))
  show \<open>event_line sample_parse ''data: {"type":"response_start"}'' ''response_start''\<close>
    by (rule sample_events(2))
  show \<open>list_all2 (token_line sample_parse)
     [''data: {"type":"token","content":"Hel"}'', ''data: {"type":"token","content":"lo"}'']
     [''Hel'', ''lo'']\<close>
    by (simp add: sample_events(3,4))
  show \<open>case [''data: {"type":"complete"}''] of [] \<Rightarrow> EndOfData = EndOfData
   | l # others \<Rightarrow> event_line sample_parse l ''complete''\<close>
    by (simp add: event_line_def sample_events(5))
qed

lemma sample_values:
  "trim ''Tell me more'' = ''Tell me more''" "uuid_next sample_app = 3"
  "concat [''Hel'', ''lo''] = ''Hello''"
  by (simp_all add: trim_def is_space_def sample_app_def)

text \<open>
  Claim C1. Let the event lines of a stream (the lines of its text that carry an event,
  however the text is cut into chunks and whatever other lines lie between them) be any
  number of events of other types than \<^verbatim>\<open>response_start\<close>, \<^verbatim>\<open>token\<close>, \<^verbatim>\<open>complete\<close> and
  \<^verbatim>\<open>error\<close> (such as \<^verbatim>\<open>start\<close>, \<^verbatim>\<open>action\<close> and \<^verbatim>\<open>memory\<close>), one \<^verbatim>\<open>response_start\<close> event
  and any sequence of \<^verbatim>\<open>token\<close> events with string payloads, followed either by the end of the data or by a
  \<^verbatim>\<open>complete\<close> event and anything behind it. Then \<^verbatim>\<open>sendMessage\<close>, called with a content
  that is not blank in a chat that holds at least two messages, returns normally and
  appends to the message list the user message and exactly one assistant message, whose
  content is the concatenation of the token payloads in the order of arrival; the typing
  indicator is off afterwards. The identifier drawn for the assistant message is assumed
  not to be the id of a message already in the list. In particular the events start,
  response\_start, token "Hel", token "lo", complete, cut into three chunks, leave the
  user message and one assistant message with content \<^verbatim>\<open>Hello\<close> behind the three
  messages of the sample chat, and the typing indicator off.
\<close>

theorem tokens_concatenate:
  \<open>(trim c \<noteq> [] \<and> 2 \<le> length (messages (chat s)) \<and>
    Suc (uuid_next s) \<notin> msg_id ` set (messages (chat s)) \<and>
    filter (\<lambda>l. event_of parse l \<noteq> None) (butlast (split_nl (concat chunks))) =
      prelude @ l0 # ls @ fin \<and>
    list_all (prelude_line parse) prelude \<and>
    event_line parse l0 ''response_start'' \<and>
    list_all2 (token_line parse) ls ts \<and>
    (case fin of [] \<Rightarrow> e = EndOfData | l # others \<Rightarrow> event_line parse l ''complete'') \<longrightarrow>
      fst (sendMessage parse sid c (Body chunks e) s) = None \<and>
      messages (chat (snd (sendMessage parse sid c (Body chunks e) s))) =
        messages (chat s) @
          [\<lparr>msg_id = uuid_next s, role = User, content = JStr (trim c), isError = False\<rparr>,
           \<lparr>msg_id = Suc (uuid_next s), role = Assistant, content = JStr (concat ts),
             isError = False\<rparr>] \<and>
      isTyping (chat (snd (sendMessage parse sid c (Body chunks e) s))) = False) \<and>
   fst (sendMessage sample_parse 1 ''Tell me more'' (Body sample_stream EndOfData) sample_app) =
     None \<and>
   messages (chat (snd (sendMessage sample_parse 1 ''Tell me more''
                          (Body sample_stream EndOfData) sample_app))) =
     messages (chat sample_app) @
       [\<lparr>msg_id = 3, role = User, content = JStr ''Tell me more'', isError = False\<rparr>,
        \<lparr>msg_id = 4, role = Assistant, content = JStr ''Hello'', isError = False\<rparr>] \<and>
   isTyping (chat (snd (sendMessage sample_parse 1 ''Tell me more''
                          (Body sample_stream EndOfData) sample_app))) = False\<close>
proof -
  note sample = send_response [OF sample_hypotheses, of 1, unfolded sample_values, simplified]
  show ?thesis
    using send_response [of c s parse chunks prelude l0 ls fin ts e sid] sample
    by (intro conjI impI) (elim conjE, simp_all)
qed

theorem tokens_concatenate_witness:
  \<open>(trim ''Tell me more'' \<noteq> [] \<and> 2 \<le> length (messages (chat sample_app)) \<and>
    Suc (uuid_next sample_app) \<notin> msg_id ` set (messages (chat sample_app)) \<and>
    filter (\<lambda>l. event_of sample_parse l \<noteq> None) (butlast (split_nl (concat sample_stream))) =
      [''data: {"type":"start"}''] @ ''data: {"type":"response_start"}'' #
      [''data: {"type":"token","content":"Hel"}'', ''data: {"type":"token","content":"lo"}''] @
      [''data: {"type":"complete"}''] \<and>
    list_all (prelude_line sample_parse) [''data: {"type":"start"}''] \<and>
    event_line sample_parse ''data: {"type":"response_start"}'' ''response_start'' \<and>
    list_all2 (token_line sample_parse)
      [''data: {"type":"token","content":"Hel"}'', ''data: {"type":"token","content":"lo"}'']
      [''Hel'', ''lo''] \<and>
    (case [''data: {"type":"complete"}''] of [] \<Rightarrow> EndOfData = EndOfData
     | l # others \<Rightarrow> event_line sample_parse l ''complete'')) \<and>
   fst (sendMessage sample_parse 1 ''Tell me more'' (Body sample_stream EndOfData) sample_app) =
     None \<and>
   messages (chat (snd (sendMessage sample_parse 1 ''Tell me more''
                          (Body sample_stream EndOfData) sample_app))) =
     messages (chat sample_app) @
       [\<lparr>msg_id = uuid_next sample_app, role = User, content = JStr (trim ''Tell me more''),
          isError = False\<rparr>,
        \<lparr>msg_id = Suc (uuid_next sample_app), role = Assistant,
          content = JStr (concat [''Hel'', ''lo'']), isError = False\<rparr>] \<and>
   isTyping (chat (snd (sendMessage sample_parse 1 ''Tell me more''
                          (Body sample_stream EndOfData) sample_app))) = False\<close>
proof -
  have h: \<open>trim ''Tell me more'' \<noteq> [] \<and> 2 \<le> length (messages (chat sample_app)) \<and>
    Suc (uuid_next sample_app) \<notin> msg_id ` set (messages (chat sample_app)) \<and>
    filter (\<lambda>l. event_of sample_parse l \<noteq> None) (butlast (split_nl (concat sample_stream))) =
      [''data: {"type":"start"}''] @ ''data: {"type":"response_start"}'' #
      [''data: {"type":"token","content":"Hel"}'', ''data: {"type":"token","content":"lo"}''] @
      [''data: {"type":"complete"}''] \<and>
    list_all (prelude_line sample_parse) [''data: {"type":"start"}''] \<and>
    event_line sample_parse ''data: {"type":"response_start"}'' ''response_start'' \<and>
    list_all2 (token_line sample_parse)
      [''data: {"type":"token","content":"Hel"}'', ''data: {"type":"token","content":"lo"}'']
      [''Hel'', ''lo''] \<and>
    (case [''data: {"type":"complete"}''] of [] \<Rightarrow> EndOfData = EndOfData
     | l # others \<Rightarrow> event_line sample_parse l ''complete'')\<close>
    by (intro conjI sample_hypotheses)
  note inst = tokens_concatenate
    [where parse = sample_parse and c = "''Tell me more''" and s = sample_app
       and chunks = sample_stream and prelude = \<open>[''data: {"type":"start"}'']\<close>
       and ?l0.0 = \<open>''data: {"type":"response_start"}''\<close>
       and ls = \<open>[''data: {"type":"token","content":"Hel"}'',
                  ''data: {"type":"token","content":"lo"}'']\<close>
       and fin = \<open>[''data: {"type":"complete"}'']\<close>
       and ts = "[''Hel'', ''lo'']" and e = EndOfData and sid = 1,
     THEN conjunct1, THEN mp, OF h]
  show ?thesis
    by (intro conjI h inst [THEN conjunct1] inst [THEN conjunct2, THEN conjunct1]
        inst [THEN conjunct2, THEN conjunct2])
qed

section \<open>Completion\<close>

text \<open>
  Claim C6. A \<^verbatim>\<open>complete\<close> event, met while the last message of the list has a string as
  content, switches the typing indicator off, stores the messages, the actions and the
  memory of the chat store in the three caches under the session id of the chat store,
  gives the session that \<^verbatim>\<open>sendMessage\<close> was called for the first 50 characters of the
  last message followed by \<^verbatim>\<open>...\<close> as \<^verbatim>\<open>lastMessage\<close> and the length of the message list
  as \<^verbatim>\<open>messageCount\<close>, and ends the processing: the lines behind it are not handled and
  the read loop returns without reading another chunk. The three cache entries are the
  array of messages, the array of actions and the memory object of the store themselves.
\<close>

theorem complete_event:
  assumes ev: "event_line parse line ''complete''"
    and nonempty: "messages (chat s) \<noteq> []"
    and str: "content (last (messages (chat s))) = JStr c"
  shows
    "let s' = snd (snd (handle_line parse sid line vars s)) in
       process_lines parse sid (line # rest) vars s = (Return, vars, s') \<and>
       (butlast (split_nl (buffer @ chunk)) = line # rest \<longrightarrow>
          read_loop parse sid (chunk # chunks) e buffer vars s = (None, s')) \<and>
       isTyping (chat s') = False \<and>
       messages (chat s') = messages (chat s) \<and>
       cached_messages (chat s') (sessionId (chat s)) = Some (messages (chat s)) \<and>
       cached_actions (chat s') (sessionId (chat s)) = Some (agentActions (chat s)) \<and>
       cached_memory (chat s') (sessionId (chat s)) = Some (memoryUpdates (chat s)) \<and>
       sessionMessages (chat s') (sessionId (chat s)) = Some Live \<and>
       sessionActions (chat s') (sessionId (chat s)) = Some Live \<and>
       sessionMemory (chat s') (sessionId (chat s)) = Some Live \<and>
       find (\<lambda>x. sess_id x = sid) (sessions (sess s')) =
         map_option
           (\<lambda>x. x\<lparr>lastMessage := Some (substring0 50 c @ ''...''),
                  messageCount := length (messages (chat s'))\<rparr>)
           (find (\<lambda>x. sess_id x = sid) (sessions (sess s)))"
proof -
  let ?s' = "s\<lparr>chat := saveCurrentSession (setTyping False (chat s)),
        sess := updateSession sid
          \<lparr>upd_lastMessage = Some (substring0 50 c @ ''...''),
           upd_messageCount = Some (length (messages (chat s)))\<rparr> (sess s)\<rparr>"
  have h: "handle_line parse sid line vars s = (Return, vars, ?s')"
    by (rule complete_line [OF ev nonempty str])
  have lines: "process_lines parse sid (line # rest) vars s = (Return, vars, ?s')"
    by (simp add: h)
  have loop: "read_loop parse sid (chunk # chunks) e buffer vars s = (None, ?s')"
    if "butlast (split_nl (buffer @ chunk)) = line # rest"
    by (simp only: read_loop_Cons that lines prod.case signal.case)
  have chat: "isTyping (chat ?s') = False" "messages (chat ?s') = messages (chat s)"
    "cached_messages (chat ?s') (sessionId (chat s)) = Some (messages (chat s))"
    "cached_actions (chat ?s') (sessionId (chat s)) = Some (agentActions (chat s))"
    "cached_memory (chat ?s') (sessionId (chat s)) = Some (memoryUpdates (chat s))"
    "sessionMessages (chat ?s') (sessionId (chat s)) = Some Live"
    "sessionActions (chat ?s') (sessionId (chat s)) = Some Live"
    "sessionMemory (chat ?s') (sessionId (chat s)) = Some Live"
    by (simp_all add: saveCurrentSession_def setTyping_def Let_def cached_messages_def
        cached_actions_def cached_memory_def)
  have "sess_id (assign_updates u x) = sess_id x" for u x
    by (simp add: assign_updates_def)
  then have found: "find (\<lambda>x. sess_id x = sid) (sessions (sess ?s')) =
      map_option
        (assign_updates \<lparr>upd_lastMessage = Some (substring0 50 c @ ''...''),
           upd_messageCount = Some (length (messages (chat s)))\<rparr>)
        (find (\<lambda>x. sess_id x = sid) (sessions (sess s)))"
    by (simp add: updateSession_def find_update_first)
  have upd: "assign_updates \<lparr>upd_lastMessage = Some (substring0 50 c @ ''...''),
           upd_messageCount = Some (length (messages (chat s)))\<rparr> =
      (\<lambda>x. x\<lparr>lastMessage := Some (substring0 50 c @ ''...''),
             messageCount := length (messages (chat ?s'))\<rparr>)"
    by (rule ext) (simp add: assign_updates_def saveCurrentSession_def setTyping_def Let_def)
  show ?thesis
    unfolding Let_def h snd_conv
    using lines loop chat found [unfolded upd] by (intro conjI impI) assumption+
qed

theorem complete_event_witness:
  \<open>event_line sample_parse ''data: {"type":"complete"}'' ''complete'' \<and>
    messages (chat sample_app) \<noteq> [] \<and>
    content (last (messages (chat sample_app))) = JStr ''How about Goa?'' \<and>
    butlast (split_nl ([] @ (''data: {"type":"complete"}'' @ [CHR 0x0A] @
                              ''data: {"type":"start"}'' @ [CHR 0x0A]))) =
      ''data: {"type":"complete"}'' # [''data: {"type":"start"}''] \<and>
    (let s' = snd (snd (handle_line sample_parse 1 ''data: {"type":"complete"}'' initial_vars
                          sample_app)) in
       process_lines sample_parse 1 (''data: {"type":"complete"}'' # [''data: {"type":"start"}''])
         initial_vars sample_app = (Return, initial_vars, s') \<and>
       read_loop sample_parse 1
         ((''data: {"type":"complete"}'' @ [CHR 0x0A] @ ''data: {"type":"start"}'' @ [CHR 0x0A]) # [])
         EndOfData [] initial_vars sample_app = (None, s') \<and>
       isTyping (chat s') = False \<and>
       messages (chat s') = messages (chat sample_app) \<and>
       cached_messages (chat s') (sessionId (chat sample_app)) = Some (messages (chat sample_app)) \<and>
       cached_actions (chat s') (sessionId (chat sample_app)) = Some (agentActions (chat sample_app)) \<and>
       cached_memory (chat s') (sessionId (chat sample_app)) = Some (memoryUpdates (chat sample_app)) \<and>
       sessionMessages (chat s') (sessionId (chat sample_app)) = Some Live \<and>
       sessionActions (chat s') (sessionId (chat sample_app)) = Some Live \<and>
       sessionMemory (chat s') (sessionId (chat sample_app)) = Some Live \<and>
       find (\<lambda>x. sess_id x = 1) (sessions (sess s')) =
         map_option
           (\<lambda>x. x\<lparr>lastMessage := Some (substring0 50 ''How about Goa?'' @ ''...''),
                  messageCount := length (messages (chat s'))\<rparr>)
           (find (\<lambda>x. sess_id x = 1) (sessions (sess sample_app))))\<close>
proof -
  let ?line = \<open>''data: {"type":"complete"}''\<close>
  let ?next = \<open>''data: {"type":"start"}''\<close>
  let ?chunk = "?line @ [CHR 0x0A] @ ?next @ [CHR 0x0A]"
  have h1: "event_line sample_parse ?line ''complete''"
    by (simp add: event_line_def sample_events(5))
  have h2: "messages (chat sample_app) \<noteq> []"
    by (simp add: sample_app_def)
  have h3: "content (last (messages (chat sample_app))) = JStr ''How about Goa?''"
    by (simp add: sample_app_def)
  have h4: "butlast (split_nl ([] @ ?chunk)) = ?line # [?next]"
    by simp
  note inst = complete_event
    [where parse = sample_parse and line = ?line and s = sample_app
       and c = "''How about Goa?''" and sid = 1 and vars = initial_vars
       and rest = "[?next]" and buffer = "[]" and chunk = ?chunk and chunks = "[]"
       and e = EndOfData, OF h1 h2 h3, unfolded Let_def]
  note loop = inst [THEN conjunct2, THEN conjunct1, THEN mp, OF h4]
  note r2 = inst [THEN conjunct2, THEN conjunct2]
  note r4 = r2 [THEN conjunct2, THEN conjunct2]
  note r6 = r4 [THEN conjunct2, THEN conjunct2]
  note r8 = r6 [THEN conjunct2, THEN conjunct2]
  show ?thesis
    unfolding Let_def
    by (intro conjI h1 h2 h3 h4 loop inst [THEN conjunct1]
        r2 [THEN conjunct1] r2 [THEN conjunct2, THEN conjunct1]
        r4 [THEN conjunct1] r4 [THEN conjunct2, THEN conjunct1]
        r6 [THEN conjunct1] r6 [THEN conjunct2, THEN conjunct1]
        r8 [THEN conjunct1] r8 [THEN conjunct2])
qed

end
